theory Spec2Isabelle
  imports Complex_Main "HOL-Library.Word"
begin

section \<open>The board: serial port, timing, and what an observer sees\<close>

text \<open>
  The repository holds two Arduino sketches that drive a stepper motor on a serial
  command: the AccelStepper sketch and, under \<open>fallback\<close>, a sketch for the built-in Stepper
  library. Both run on a single-threaded microcontroller. Everything a sketch does to the
  outside world is recorded, oldest first, in the field \<open>out\<close>: a status line printed on
  the serial port, one step pulse sent to the motor driver (\<open>Pulse 1\<close> clockwise,
  \<open>Pulse (- 1)\<close> counter-clockwise), or a blocking pause of so many milliseconds. A pulse
  is one step in a logical direction; the coil pattern a driver library puts on the four
  pins, and the moment at which it does, are not part of the record.
  The field \<open>rx\<close> is the serial receive queue: the bytes that have arrived and have not
  been read yet, the next one to be read first.

  The Arduino core (\<open>Serial\<close>, \<open>delay\<close>) is not part of the repository. Its functions are
  modelled as the sketches use them: \<open>Serial.available()\<close> counts the bytes waiting in the
  receive queue, \<open>Serial.read()\<close> takes the first of them. The queue is filled by the
  receive interrupt; its capacity (64 bytes on the boards the sketches are written for) is
  not modelled.
\<close>

type_synonym byte = "8 word"

datatype event = Println string | Pulse int | Delay nat

record board =
  baud :: nat
  rx :: "byte list"
  out :: "event list"

definition Serial_begin :: "nat \<Rightarrow> 'a board_scheme \<Rightarrow> 'a board_scheme" where
  "Serial_begin b w = w\<lparr>baud := b\<rparr>"

definition Serial_println :: "string \<Rightarrow> 'a board_scheme \<Rightarrow> 'a board_scheme" where
  "Serial_println s w = w\<lparr>out := out w @ [Println s]\<rparr>"

definition Serial_available :: "'a board_scheme \<Rightarrow> nat" where
  "Serial_available w = length (rx w)"

text \<open>\<open>Serial.read()\<close> returns an \<open>int\<close>: the first queued byte, or \<open>-1\<close> when the queue is
  empty. The byte read leaves the queue.\<close>

definition Serial_read :: "'a board_scheme \<Rightarrow> int \<times> 'a board_scheme" where
  "Serial_read w = (case rx w of [] \<Rightarrow> (- 1, w) | b # bs \<Rightarrow> (uint b, w\<lparr>rx := bs\<rparr>))"

text \<open>\<open>delay(ms)\<close> blocks for \<open>ms\<close> milliseconds. The receive interrupt keeps running while
  the sketch is blocked: \<open>arrivals\<close> are the bytes the host sends in that time; they join
  the receive queue behind the bytes already waiting. The dwell is the one place where the
  model lets bytes in. Nothing in a sequence reads or empties the queue, so a byte that
  arrives at any other moment of the sequence is in the same place when the sequence
  ends: behind the bytes that were waiting.\<close>

definition delay :: "nat \<Rightarrow> byte list \<Rightarrow> 'a board_scheme \<Rightarrow> 'a board_scheme" where
  "delay ms arrivals w = w\<lparr>rx := rx w @ arrivals, out := out w @ [Delay ms]\<rparr>"

text \<open>The character literal \<open>'M'\<close> of both sketches, as the byte a \<open>char\<close> holds. The
  sketches store the \<open>int\<close> that \<open>Serial.read()\<close> returns in a \<open>char\<close> and compare it with the
  literal: the comparison holds exactly when the byte read is \<open>0x4D\<close>.\<close>

definition char_M :: byte where
  "char_M = of_char (CHR ''M'')"


section \<open>The AccelStepper sketch\<close>

subsection \<open>Constants of the sketch\<close>

definition stepsPerRevolution :: int where
  "stepsPerRevolution = 1536"

definition DEFAULT_MAX_SPEED :: real where
  "DEFAULT_MAX_SPEED = 400"

definition DEFAULT_ACCELERATION :: real where
  "DEFAULT_ACCELERATION = 200"

subsection \<open>The stepper object\<close>

text \<open>
  Modelled from the spec: the AccelStepper library, whose object \<open>stepper\<close> the sketch
  drives through \<open>setMaxSpeed\<close>, \<open>setAcceleration\<close>, \<open>moveTo\<close>, \<open>distanceToGo\<close> and \<open>run\<close>, is not
  part of the repository's sources. The spec gives its data (a motion profile with
  \<open>maxSpeed\<close> and \<open>acceleration\<close>, a signed step count relative to the base position 0, the
  target of the current move) and its step function: \<open>stepsToGo = target - currentStep\<close>;
  a call whose step is due emits one pulse, moves the current step by one towards the
  target, and recomputes the speed, clamped to \<open>maxSpeed\<close>; a call whose step is not due
  returns at once and changes nothing.

  Two things the spec leaves open are parameters of the model. Whether a step is due
  depends on the wall clock: it is the Boolean \<open>due\<close>, an input of every call. By how much
  the speed changes from one step to the next is the function \<open>ramp\<close>, from the current
  speed, the acceleration and the steps still to go to the speed proposed for the next
  interval; nothing is assumed about it. What holds of the sketch for every clock and
  every ramp can be stated and proved here; what depends on the shape of the ramp (how
  many steps accelerate, how many decelerate, which speed is the peak) cannot.

  Step counts are mathematical integers. The sketch keeps them in a 32-bit \<open>long\<close>; from
  the base position it only ever reaches the positions 0 to 1536. The two settings are
  \<open>float\<close>s in the sketch; only the constants 400 and 200 and comparisons with them occur.
\<close>

record accel = board +
  maxSpeed :: real
  acceleration :: real
  currentPos :: int
  targetPos :: int
  speed :: real

type_synonym ramp = "real \<Rightarrow> real \<Rightarrow> int \<Rightarrow> real"

text \<open>Modelled from the spec: the two setters of the absent library store the setting.
  The spec records that the source does not check them (a zero or negative value is
  undefined behaviour there).\<close>

definition setMaxSpeed :: "real \<Rightarrow> accel \<Rightarrow> accel" where
  "setMaxSpeed v w = w\<lparr>maxSpeed := v\<rparr>"

definition setAcceleration :: "real \<Rightarrow> accel \<Rightarrow> accel" where
  "setAcceleration a w = w\<lparr>acceleration := a\<rparr>"

text \<open>Modelled from the spec: \<open>moveTo\<close> of the absent library sets the target of the move;
  \<open>distanceToGo\<close> is the spec's \<open>stepsToGo\<close>.\<close>

definition moveTo :: "int \<Rightarrow> accel \<Rightarrow> accel" where
  "moveTo absolute w = w\<lparr>targetPos := absolute\<rparr>"

definition distanceToGo :: "accel \<Rightarrow> int" where
  "distanceToGo w = targetPos w - currentPos w"

text \<open>Modelled from the spec: the non-blocking step function \<open>run\<close> of the absent library.\<close>

definition run :: "ramp \<Rightarrow> bool \<Rightarrow> accel \<Rightarrow> accel" where
  "run rmp due w =
     (let stepsToGo = distanceToGo w in
      if due \<and> stepsToGo \<noteq> 0 then
        w\<lparr>out := out w @ [Pulse (sgn stepsToGo)],
          currentPos := currentPos w + sgn stepsToGo,
          speed := min (maxSpeed w) (rmp (speed w) (acceleration w) (stepsToGo - sgn stepsToGo))\<rparr>
      else w)"

subsection \<open>The environment of one pass through \<open>loop\<close>\<close>

text \<open>
  What the outside world contributes while one call of \<open>loop\<close> runs: for every call of
  \<open>run\<close> that the outbound busy-wait loop makes, whether a step is due at that call
  (\<open>outbound\<close>); the bytes that arrive on the serial line during the dwell (\<open>during\<close>); and
  the same clock information for the return loop (\<open>inbound\<close>). A list of clock answers
  that ends stands for a clock on which no later call finds a step due.
\<close>

record env =
  outbound :: "bool list"
  during :: "byte list"
  inbound :: "bool list"

subsection \<open>The functions of the sketch\<close>

text \<open>The body of \<open>setup()\<close>, with the two tuning constants it hands to the stepper
  as parameters.\<close>

definition setup_with :: "real \<Rightarrow> real \<Rightarrow> accel \<Rightarrow> accel" where
  "setup_with max_speed accel_rate w =
     Serial_println ''Setup complete. AccelStepper configured.''
       (setAcceleration accel_rate (setMaxSpeed max_speed (Serial_begin 9600 w)))"

text \<open>The sketch's \<open>setup()\<close>: the body above at the two tuning constants.\<close>

definition setup_accel :: "accel \<Rightarrow> accel" where
  "setup_accel w = setup_with DEFAULT_MAX_SPEED DEFAULT_ACCELERATION w"

text \<open>\<open>while (stepper.distanceToGo() != 0) stepper.run();\<close> One clock answer is used up
  by each call of \<open>run\<close>. The result \<open>None\<close> is the loop that never ends: the distance is
  not zero and no call will ever find a step due.\<close>

fun moveLoop :: "ramp \<Rightarrow> bool list \<Rightarrow> accel \<Rightarrow> accel option" where
  "moveLoop rmp [] w = (if distanceToGo w \<noteq> 0 then None else Some w)"
| "moveLoop rmp (due # clock) w =
     (if distanceToGo w \<noteq> 0 then moveLoop rmp clock (run rmp due w) else Some w)"

definition moveMotorSequence :: "ramp \<Rightarrow> env \<Rightarrow> accel \<Rightarrow> accel option" where
  "moveMotorSequence rmp e w =
     (case moveLoop rmp (outbound e)
             (moveTo stepsPerRevolution (Serial_println ''Moving to target...'' w)) of
        None \<Rightarrow> None
      | Some w1 \<Rightarrow>
          moveLoop rmp (inbound e)
            (moveTo 0
              (Serial_println ''Returning to base...''
                (delay 3000 (during e) (Serial_println ''Waiting...'' w1)))))"

definition loop :: "ramp \<Rightarrow> env \<Rightarrow> accel \<Rightarrow> accel option" where
  "loop rmp e w =
     (if Serial_available w > 0 then
        (case Serial_read w of
           (r, w1) \<Rightarrow>
             let command = (word_of_int r :: byte) in
             if command = char_M then
               (case moveMotorSequence rmp e
                       (Serial_println ''M received, starting sequence...'' w1) of
                  None \<Rightarrow> None
                | Some w2 \<Rightarrow> Some (Serial_println ''Sequence complete.'' w2))
             else Some w1)
      else Some w)"

text \<open>The Arduino runtime calls \<open>loop\<close> again and again; \<open>mainLoop\<close> is a finite number of
  these calls, one environment for each.\<close>

fun mainLoop :: "ramp \<Rightarrow> env list \<Rightarrow> accel \<Rightarrow> accel option" where
  "mainLoop rmp [] w = Some w"
| "mainLoop rmp (e # es) w =
     (case loop rmp e w of None \<Rightarrow> None | Some w' \<Rightarrow> mainLoop rmp es w')"


section \<open>The fallback sketch\<close>

definition stepsPerRevolution_fallback :: int where
  "stepsPerRevolution_fallback = 1536"

text \<open>
  Modelled from the spec: the built-in Stepper library behind the object \<open>myStepper\<close> is
  not part of the repository's sources. The spec names this sketch the simple
  fixed-speed mode; the sketch's own comments say what its two calls do. \<open>setSpeed\<close> takes
  the speed in rotations per minute. \<open>step(n)\<close> turns the motor \<open>n\<close> steps clockwise, or
  \<open>- n\<close> steps counter-clockwise when \<open>n\<close> is negative, and returns when the last step has
  been made; it keeps no absolute position. The sketch's \<open>int\<close> is 16 bits wide; 1536 and
  \<open>- 1536\<close> are well inside it.
\<close>

record fallback = board +
  rpm :: int

text \<open>Modelled from the spec: \<open>setSpeed\<close> and \<open>step\<close> of the absent library, as just
  described.\<close>

definition Stepper_setSpeed :: "int \<Rightarrow> fallback \<Rightarrow> fallback" where
  "Stepper_setSpeed whatSpeed w = w\<lparr>rpm := whatSpeed\<rparr>"

definition Stepper_step :: "int \<Rightarrow> fallback \<Rightarrow> fallback" where
  "Stepper_step steps_to_move w =
     w\<lparr>out := out w @ replicate (nat \<bar>steps_to_move\<bar>) (Pulse (sgn steps_to_move))\<rparr>"

definition setup_fallback :: "fallback \<Rightarrow> fallback" where
  "setup_fallback w =
     Serial_println
       ''Fallback Stepper sketch started. Send 'M' over serial to run sequence.''
       (Stepper_setSpeed 15 (Serial_begin 9600 w))"

definition moveMotorSequence_fallback :: "env \<Rightarrow> fallback \<Rightarrow> fallback" where
  "moveMotorSequence_fallback e w =
     Stepper_step (- stepsPerRevolution_fallback)
       (Serial_println ''Returning to base...''
         (delay 3000 (during e)
           (Serial_println ''Waiting...''
             (Stepper_step stepsPerRevolution_fallback
               (Serial_println ''Moving to target...'' w)))))"

definition loop_fallback :: "env \<Rightarrow> fallback \<Rightarrow> fallback" where
  "loop_fallback e w =
     (if Serial_available w > 0 then
        (case Serial_read w of
           (r, w1) \<Rightarrow>
             let command = (word_of_int r :: byte) in
             if command = char_M then
               Serial_println ''Sequence complete.''
                 (moveMotorSequence_fallback e
                   (Serial_println ''M received, starting sequence...'' w1))
             else w1)
      else w)"

fun mainLoop_fallback :: "env list \<Rightarrow> fallback \<Rightarrow> fallback" where
  "mainLoop_fallback [] w = w"
| "mainLoop_fallback (e # es) w = mainLoop_fallback es (loop_fallback e w)"


section \<open>Vocabulary of the statements\<close>

text \<open>The pulses of one move over the signed distance \<open>d\<close>.\<close>

definition pulses :: "int \<Rightarrow> event list" where
  "pulses d = replicate (nat \<bar>d\<bar>) (Pulse (sgn d))"

text \<open>How many calls of \<open>run\<close> a clock lets emit a step.\<close>

definition stepsDue :: "bool list \<Rightarrow> nat" where
  "stepsDue clock = length (filter (\<lambda>due. due) clock)"

text \<open>The status lines of a trace, in order; the net number of steps the motor has been
  turned (clockwise positive); the time spent in blocking pauses, in milliseconds.\<close>

fun statusLines :: "event list \<Rightarrow> string list" where
  "statusLines [] = []"
| "statusLines (Println s # t) = s # statusLines t"
| "statusLines (Pulse d # t) = statusLines t"
| "statusLines (Delay ms # t) = statusLines t"

fun netSteps :: "event list \<Rightarrow> int" where
  "netSteps [] = 0"
| "netSteps (Println s # t) = netSteps t"
| "netSteps (Pulse d # t) = d + netSteps t"
| "netSteps (Delay ms # t) = netSteps t"

fun pauseTime :: "event list \<Rightarrow> nat" where
  "pauseTime [] = 0"
| "pauseTime (Println s # t) = pauseTime t"
| "pauseTime (Pulse d # t) = pauseTime t"
| "pauseTime (Delay ms # t) = ms + pauseTime t"

text \<open>The state in which the outbound busy-wait loop starts (the first status line
  printed, the target set), and the state in which the return loop starts, given the
  state \<open>w1\<close> in which the outbound loop ended.\<close>

definition outboundStart :: "accel \<Rightarrow> accel" where
  "outboundStart w = moveTo stepsPerRevolution (Serial_println ''Moving to target...'' w)"

definition returnStart :: "env \<Rightarrow> accel \<Rightarrow> accel" where
  "returnStart e w1 =
     moveTo 0 (Serial_println ''Returning to base...''
       (delay 3000 (during e) (Serial_println ''Waiting...'' w1)))"

text \<open>The environment of one call of \<open>loop\<close> on a steady clock: every call of \<open>run\<close>, up
  to the 1536 that a move needs, finds its step due; \<open>arrivals\<close> come in during the dwell.\<close>

definition steady :: "byte list \<Rightarrow> env" where
  "steady arrivals =
     \<lparr>outbound = replicate 1536 True, during = arrivals, inbound = replicate 1536 True\<rparr>"

text \<open>A board that has just been powered on: nothing configured, nothing printed, the
  motor at rest at the base position, and \<open>queue\<close> waiting in the receive queue.\<close>

definition power_on :: "byte list \<Rightarrow> accel" where
  "power_on queue =
     \<lparr>baud = 0, rx = queue, out = [], maxSpeed = 0, acceleration = 0,
      currentPos = 0, targetPos = 0, speed = 0\<rparr>"

text \<open>The same for the fallback sketch.\<close>

definition power_on_fallback :: "byte list \<Rightarrow> fallback" where
  "power_on_fallback queue = \<lparr>baud = 0, rx = queue, out = [], rpm = 0\<rparr>"

text \<open>Every state the AccelStepper sketch can be in after \<open>setup()\<close> has run on a board
  whose motor is at rest: \<open>setup()\<close> is followed by the operations \<open>loop\<close> and
  \<open>moveMotorSequence\<close> are made of, in any order and any number of times.\<close>

inductive reachable :: "ramp \<Rightarrow> accel \<Rightarrow> bool" for rmp :: ramp where
  after_setup: "speed w = 0 \<Longrightarrow> reachable rmp (setup_accel w)"
| after_println: "reachable rmp w \<Longrightarrow> reachable rmp (Serial_println s w)"
| after_read: "reachable rmp w \<Longrightarrow> reachable rmp (snd (Serial_read w))"
| after_moveTo: "reachable rmp w \<Longrightarrow> reachable rmp (moveTo absolute w)"
| after_run: "reachable rmp w \<Longrightarrow> reachable rmp (run rmp due w)"
| after_delay: "reachable rmp w \<Longrightarrow> reachable rmp (delay ms arrivals w)"

code_pred reachable .


section \<open>Basic facts\<close>

subsection \<open>Constants and primitives\<close>

lemma steady_simps [simp]:
  "outbound (steady d) = replicate 1536 True"
  "during (steady d) = d"
  "inbound (steady d) = replicate 1536 True"
  by (simp_all add: steady_def)

lemma char_M_hex: "char_M = 0x4D"
  by (simp add: char_M_def)

lemmas prims =
  Serial_begin_def Serial_println_def delay_def moveTo_def setMaxSpeed_def setAcceleration_def

subsection \<open>The step function and the busy-wait loop\<close>

lemma distanceToGo_run:
  "distanceToGo (run rmp due w) =
     (if due then distanceToGo w - sgn (distanceToGo w) else distanceToGo w)"
  by (simp add: run_def distanceToGo_def Let_def)

lemma run_frame:
  "targetPos (run rmp due w) = targetPos w"
  "rx (run rmp due w) = rx w"
  "baud (run rmp due w) = baud w"
  "maxSpeed (run rmp due w) = maxSpeed w"
  "acceleration (run rmp due w) = acceleration w"
  by (simp_all add: run_def Let_def)

lemma out_run:
  "out (run rmp due w) =
     out w @ (if due \<and> distanceToGo w \<noteq> 0 then [Pulse (sgn (distanceToGo w))] else [])"
  by (simp add: run_def Let_def)

lemma pulses_0: "pulses 0 = []"
  by (simp add: pulses_def)

lemma pulses_step: "d \<noteq> 0 \<Longrightarrow> Pulse (sgn d) # pulses (d - sgn d) = pulses d"
proof -
  assume d: "d \<noteq> 0"
  have n: "nat \<bar>d\<bar> = Suc (nat \<bar>d - sgn d\<bar>)"
    using d by (cases "0 < d") (simp_all add: sgn_if)
  have "d - sgn d \<noteq> 0 \<Longrightarrow> sgn (d - sgn d) = sgn d"
    using d by (simp add: sgn_if split: if_splits)
  then show ?thesis
    using n by (cases "d - sgn d = 0") (simp_all add: pulses_def)
qed

lemma moveLoop_Some_iff:
  "(moveLoop rmp clock w \<noteq> None) = (nat \<bar>distanceToGo w\<bar> \<le> stepsDue clock)"
proof (induction clock arbitrary: w)
  case Nil
  show ?case by (simp add: stepsDue_def)
next
  case (Cons due clock)
  show ?case
  proof (cases "distanceToGo w = 0")
    case True
    then show ?thesis by simp
  next
    case False
    then have "nat \<bar>distanceToGo w\<bar> = Suc (nat \<bar>distanceToGo w - sgn (distanceToGo w)\<bar>)"
      by (cases "0 < distanceToGo w") (simp_all add: sgn_if)
    with False Cons.IH [of "run rmp due w"] show ?thesis
      by (simp add: distanceToGo_run stepsDue_def)
  qed
qed

lemma moveLoop_out:
  "moveLoop rmp clock w = Some w' \<Longrightarrow> out w' = out w @ pulses (distanceToGo w)"
proof (induction clock arbitrary: w)
  case Nil
  then show ?case by (simp add: pulses_0 split: if_splits)
next
  case (Cons due clock)
  show ?case
  proof (cases "distanceToGo w = 0")
    case True
    with Cons.prems show ?thesis by (simp add: pulses_0)
  next
    case False
    with Cons.prems have "moveLoop rmp clock (run rmp due w) = Some w'" by simp
    from Cons.IH [OF this] False show ?thesis
      by (simp add: out_run distanceToGo_run pulses_step)
  qed
qed

lemma moveLoop_arrives:
  "moveLoop rmp clock w = Some w' \<Longrightarrow> currentPos w' = targetPos w \<and> targetPos w' = targetPos w"
proof (induction clock arbitrary: w)
  case Nil
  then show ?case by (simp add: distanceToGo_def split: if_splits)
next
  case (Cons due clock)
  show ?case
  proof (cases "distanceToGo w = 0")
    case True
    with Cons.prems show ?thesis by (simp add: distanceToGo_def)
  next
    case False
    with Cons.prems have "moveLoop rmp clock (run rmp due w) = Some w'" by simp
    from Cons.IH [OF this] show ?thesis by (simp add: run_frame)
  qed
qed

lemma moveLoop_frame:
  "moveLoop rmp clock w = Some w' \<Longrightarrow>
     rx w' = rx w \<and> baud w' = baud w \<and> maxSpeed w' = maxSpeed w \<and> acceleration w' = acceleration w"
proof (induction clock arbitrary: w)
  case Nil
  then show ?case by (simp split: if_splits)
next
  case (Cons due clock)
  show ?case
  proof (cases "distanceToGo w = 0")
    case True
    with Cons.prems show ?thesis by simp
  next
    case False
    with Cons.prems have "moveLoop rmp clock (run rmp due w) = Some w'" by simp
    from Cons.IH [OF this] show ?thesis by (simp add: run_frame)
  qed
qed

lemma speed_run: "speed w \<le> maxSpeed w \<Longrightarrow> speed (run rmp due w) \<le> maxSpeed (run rmp due w)"
  by (simp add: run_def Let_def)

lemma stepsDue_replicate: "stepsDue (replicate n True) = n"
  by (simp add: stepsDue_def)

subsection \<open>Traces\<close>

lemma statusLines_append: "statusLines (xs @ ys) = statusLines xs @ statusLines ys"
  by (induction xs rule: statusLines.induct) simp_all

lemma netSteps_append: "netSteps (xs @ ys) = netSteps xs + netSteps ys"
  by (induction xs rule: netSteps.induct) simp_all

lemma pauseTime_append: "pauseTime (xs @ ys) = pauseTime xs + pauseTime ys"
  by (induction xs rule: pauseTime.induct) simp_all

lemma statusLines_replicate: "statusLines (replicate n (Pulse d)) = []"
  by (induction n) simp_all

lemma pauseTime_replicate: "pauseTime (replicate n (Pulse d)) = 0"
  by (induction n) simp_all

lemma netSteps_replicate: "netSteps (replicate n (Pulse d)) = int n * d"
  by (induction n) (simp_all add: algebra_simps)

lemma statusLines_pulses: "statusLines (pulses d) = []"
  by (simp add: pulses_def statusLines_replicate)

lemma pauseTime_pulses: "pauseTime (pulses d) = 0"
  by (simp add: pulses_def pauseTime_replicate)

subsection \<open>The motion sequence\<close>

lemma moveMotorSequence_phases:
  "(moveMotorSequence rmp e w = Some w') =
     (\<exists>w1. moveLoop rmp (outbound e) (outboundStart w) = Some w1 \<and>
           moveLoop rmp (inbound e) (returnStart e w1) = Some w')"
  by (simp add: moveMotorSequence_def outboundStart_def returnStart_def split: option.splits)

lemma outboundStart_simps:
  "distanceToGo (outboundStart w) = stepsPerRevolution - currentPos w"
  "targetPos (outboundStart w) = stepsPerRevolution"
  "out (outboundStart w) = out w @ [Println ''Moving to target...'']"
  "rx (outboundStart w) = rx w"
  "baud (outboundStart w) = baud w"
  "maxSpeed (outboundStart w) = maxSpeed w"
  "acceleration (outboundStart w) = acceleration w"
  "speed (outboundStart w) = speed w"
  by (simp_all add: outboundStart_def distanceToGo_def prims)

lemma returnStart_simps:
  "distanceToGo (returnStart e w) = - currentPos w"
  "targetPos (returnStart e w) = 0"
  "out (returnStart e w) =
     out w @ [Println ''Waiting...'', Delay 3000, Println ''Returning to base...'']"
  "rx (returnStart e w) = rx w @ during e"
  "baud (returnStart e w) = baud w"
  "maxSpeed (returnStart e w) = maxSpeed w"
  "acceleration (returnStart e w) = acceleration w"
  "speed (returnStart e w) = speed w"
  by (simp_all add: returnStart_def distanceToGo_def prims)

lemma moveMotorSequence_Some_iff:
  "(moveMotorSequence rmp e w \<noteq> None) =
     (nat \<bar>stepsPerRevolution - currentPos w\<bar> \<le> stepsDue (outbound e) \<and>
      nat stepsPerRevolution \<le> stepsDue (inbound e))"
proof (cases "moveLoop rmp (outbound e) (outboundStart w)")
  case None
  then have "moveMotorSequence rmp e w = None"
    by (simp add: moveMotorSequence_def outboundStart_def)
  moreover from None have "\<not> nat \<bar>stepsPerRevolution - currentPos w\<bar> \<le> stepsDue (outbound e)"
    using moveLoop_Some_iff [of rmp "outbound e" "outboundStart w"]
    by (simp add: outboundStart_simps)
  ultimately show ?thesis by simp
next
  case (Some w1)
  then have "moveMotorSequence rmp e w = moveLoop rmp (inbound e) (returnStart e w1)"
    by (simp add: moveMotorSequence_def outboundStart_def returnStart_def)
  moreover from Some have "nat \<bar>stepsPerRevolution - currentPos w\<bar> \<le> stepsDue (outbound e)"
    using moveLoop_Some_iff [of rmp "outbound e" "outboundStart w"]
    by (simp add: outboundStart_simps)
  moreover from moveLoop_arrives [OF Some] have "currentPos w1 = stepsPerRevolution"
    by (simp add: outboundStart_simps)
  ultimately show ?thesis
    using moveLoop_Some_iff [of rmp "inbound e" "returnStart e w1"]
    by (simp add: returnStart_simps stepsPerRevolution_def)
qed

lemma moveMotorSequence_out:
  assumes "moveMotorSequence rmp e w = Some w'"
  shows "out w' = out w @ Println ''Moving to target...'' #
           pulses (stepsPerRevolution - currentPos w) @
           [Println ''Waiting...'', Delay 3000, Println ''Returning to base...''] @
           pulses (- stepsPerRevolution)"
proof -
  from assms obtain w1 where
    1: "moveLoop rmp (outbound e) (outboundStart w) = Some w1" and
    2: "moveLoop rmp (inbound e) (returnStart e w1) = Some w'"
    by (auto simp: moveMotorSequence_phases)
  from moveLoop_arrives [OF 1] have "currentPos w1 = stepsPerRevolution"
    by (simp add: outboundStart_simps)
  with moveLoop_out [OF 1] moveLoop_out [OF 2] show ?thesis
    by (simp add: outboundStart_simps returnStart_simps)
qed

lemma moveMotorSequence_state:
  assumes "moveMotorSequence rmp e w = Some w'"
  shows "currentPos w' = 0" and "targetPos w' = 0" and "rx w' = rx w @ during e"
    and "baud w' = baud w" and "maxSpeed w' = maxSpeed w" and "acceleration w' = acceleration w"
proof -
  from assms obtain w1 where
    1: "moveLoop rmp (outbound e) (outboundStart w) = Some w1" and
    2: "moveLoop rmp (inbound e) (returnStart e w1) = Some w'"
    by (auto simp: moveMotorSequence_phases)
  from moveLoop_arrives [OF 2] show "currentPos w' = 0" and "targetPos w' = 0"
    by (simp_all add: returnStart_simps)
  from moveLoop_frame [OF 1] moveLoop_frame [OF 2]
  show "rx w' = rx w @ during e" and "baud w' = baud w" and "maxSpeed w' = maxSpeed w"
    and "acceleration w' = acceleration w"
    by (simp_all add: outboundStart_simps returnStart_simps)
qed

subsection \<open>The dispatcher\<close>

lemma loop_idle: "rx w = [] \<Longrightarrow> loop rmp e w = Some w"
  by (simp add: loop_def Serial_available_def)

lemma loop_other: "rx w = b # bs \<Longrightarrow> b \<noteq> char_M \<Longrightarrow> loop rmp e w = Some (w\<lparr>rx := bs\<rparr>)"
  by (simp add: loop_def Serial_available_def Serial_read_def)

lemma loop_M:
  "rx w = char_M # bs \<Longrightarrow>
     loop rmp e w =
       map_option (Serial_println ''Sequence complete.'')
         (moveMotorSequence rmp e (Serial_println ''M received, starting sequence...'' (w\<lparr>rx := bs\<rparr>)))"
  by (simp add: loop_def Serial_available_def Serial_read_def split: option.splits)

lemma power_on_simps:
  "currentPos (power_on q) = 0" "targetPos (power_on q) = 0" "speed (power_on q) = 0"
  "rx (power_on q) = q" "out (power_on q) = []"
  by (simp_all add: power_on_def)

lemma setup_with_simps:
  "maxSpeed (setup_with ms ac w) = ms"
  "acceleration (setup_with ms ac w) = ac"
  "currentPos (setup_with ms ac w) = currentPos w"
  "targetPos (setup_with ms ac w) = targetPos w"
  "speed (setup_with ms ac w) = speed w"
  "rx (setup_with ms ac w) = rx w"
  "baud (setup_with ms ac w) = 9600"
  "out (setup_with ms ac w) = out w @ [Println ''Setup complete. AccelStepper configured.'']"
  by (simp_all add: setup_with_def prims)


lemma mainLoop_append:
  "mainLoop rmp (es @ es') w =
     (case mainLoop rmp es w of None \<Rightarrow> None | Some w' \<Rightarrow> mainLoop rmp es' w')"
  by (induction es arbitrary: w) (simp_all split: option.splits)

lemma mainLoop_noise:
  "char_M \<notin> set noise \<Longrightarrow> length es = length noise \<Longrightarrow> rx w = noise @ rest \<Longrightarrow>
     mainLoop rmp es w = Some (w\<lparr>rx := rest\<rparr>)"
proof (induction noise arbitrary: es w)
  case Nil
  then show ?case by simp
next
  case (Cons b noise)
  from Cons.prems(2) obtain e es' where es: "es = e # es'" and len: "length es' = length noise"
    by (cases es) simp_all
  from Cons.prems have l: "loop rmp e w = Some (w\<lparr>rx := noise @ rest\<rparr>)"
    by (intro loop_other) auto
  from Cons.prems(1) have "char_M \<notin> set noise" by simp
  from Cons.IH [OF this len, of "w\<lparr>rx := noise @ rest\<rparr>"] l es
  show ?case by simp
qed

subsection \<open>The states the sketch can reach\<close>

lemma setup_accel_simps:
  "maxSpeed (setup_accel w) = DEFAULT_MAX_SPEED"
  "acceleration (setup_accel w) = DEFAULT_ACCELERATION"
  "speed (setup_accel w) = speed w"
  by (simp_all add: setup_accel_def setup_with_simps)

lemma Serial_read_frame:
  "maxSpeed (snd (Serial_read w)) = maxSpeed w"
  "acceleration (snd (Serial_read w)) = acceleration w"
  "speed (snd (Serial_read w)) = speed w"
  by (simp_all add: Serial_read_def split: list.splits)

lemma reachable_invariant:
  "reachable rmp w \<Longrightarrow>
     speed w \<le> maxSpeed w \<and> maxSpeed w = DEFAULT_MAX_SPEED \<and>
     acceleration w = DEFAULT_ACCELERATION"
proof (induction rule: reachable.induct)
  case (after_setup w)
  then show ?case by (simp add: setup_accel_simps DEFAULT_MAX_SPEED_def)
next
  case (after_println w s)
  then show ?case by (simp add: Serial_println_def)
next
  case (after_read w)
  then show ?case by (simp add: Serial_read_frame)
next
  case (after_moveTo w absolute)
  then show ?case by (simp add: moveTo_def)
next
  case (after_run w due)
  then show ?case using speed_run [of w rmp due] by (simp add: run_frame)
next
  case (after_delay w ms arrivals)
  then show ?case by (simp add: delay_def)
qed

lemma moveLoop_reachable:
  "reachable rmp w \<Longrightarrow> moveLoop rmp clock w = Some w' \<Longrightarrow> reachable rmp w'"
proof (induction clock arbitrary: w)
  case Nil
  then show ?case by (simp split: if_splits)
next
  case (Cons due clock)
  show ?case
  proof (cases "distanceToGo w = 0")
    case True
    with Cons.prems show ?thesis by simp
  next
    case False
    with Cons.prems have "moveLoop rmp clock (run rmp due w) = Some w'" by simp
    from Cons.IH [OF after_run [OF Cons.prems(1)] this] show ?thesis .
  qed
qed

lemma moveMotorSequence_reachable:
  assumes "reachable rmp w" and "moveMotorSequence rmp e w = Some w'"
  shows "reachable rmp w'"
proof -
  from assms(2) obtain w1 where
    1: "moveLoop rmp (outbound e) (outboundStart w) = Some w1" and
    2: "moveLoop rmp (inbound e) (returnStart e w1) = Some w'"
    by (auto simp: moveMotorSequence_phases)
  from assms(1) have "reachable rmp (outboundStart w)"
    unfolding outboundStart_def by (intro after_moveTo after_println)
  from moveLoop_reachable [OF this 1] have "reachable rmp (returnStart e w1)"
    unfolding returnStart_def by (intro after_moveTo after_println after_delay)
  from moveLoop_reachable [OF this 2] show ?thesis .
qed

lemma Serial_read_pop: "rx w = b # bs \<Longrightarrow> snd (Serial_read w) = w\<lparr>rx := bs\<rparr>"
  by (simp add: Serial_read_def)

lemma loop_reachable:
  assumes "reachable rmp w" and "loop rmp e w = Some w'"
  shows "reachable rmp w'"
proof (cases "rx w")
  case Nil
  with assms show ?thesis by (simp add: loop_idle)
next
  case (Cons b bs)
  from after_read [OF assms(1)] Cons have r: "reachable rmp (w\<lparr>rx := bs\<rparr>)"
    by (simp add: Serial_read_pop)
  show ?thesis
  proof (cases "b = char_M")
    case True
    with Cons assms(2) obtain w2 where
      2: "moveMotorSequence rmp e
            (Serial_println ''M received, starting sequence...'' (w\<lparr>rx := bs\<rparr>)) = Some w2" and
      3: "w' = Serial_println ''Sequence complete.'' w2"
      by (auto simp: loop_M)
    from moveMotorSequence_reachable [OF after_println [OF r] 2] 3 show ?thesis
      by (simp add: after_println)
  next
    case False
    with Cons assms(2) r show ?thesis by (simp add: loop_other)
  qed
qed

lemma mainLoop_reachable:
  "reachable rmp w \<Longrightarrow> mainLoop rmp es w = Some w' \<Longrightarrow> reachable rmp w'"
proof (induction es arbitrary: w)
  case Nil
  then show ?case by simp
next
  case (Cons e es)
  from Cons.prems(2) obtain w1 where
    1: "loop rmp e w = Some w1" and 2: "mainLoop rmp es w1 = Some w'"
    by (auto split: option.splits)
  from Cons.IH [OF loop_reachable [OF Cons.prems(1) 1] 2] show ?case .
qed

subsection \<open>A dispatched sequence\<close>

lemma loop_M_Some:
  assumes "rx w = char_M # bs" and "loop rmp e w = Some w'"
  obtains w2 where
    "moveMotorSequence rmp e
       (Serial_println ''M received, starting sequence...'' (w\<lparr>rx := bs\<rparr>)) = Some w2"
    and "w' = Serial_println ''Sequence complete.'' w2"
  using assms by (auto simp: loop_M)

lemma loop_M_result:
  assumes "rx w = char_M # bs" and "loop rmp e w = Some w'"
  shows "out w' = out w @
           Println ''M received, starting sequence...'' #
           Println ''Moving to target...'' # pulses (stepsPerRevolution - currentPos w) @
           [Println ''Waiting...'', Delay 3000, Println ''Returning to base...''] @
           pulses (- stepsPerRevolution) @ [Println ''Sequence complete.'']"
    and "rx w' = bs @ during e" and "currentPos w' = 0"
proof -
  from assms obtain w2 where
    2: "moveMotorSequence rmp e
          (Serial_println ''M received, starting sequence...'' (w\<lparr>rx := bs\<rparr>)) = Some w2" and
    3: "w' = Serial_println ''Sequence complete.'' w2"
    by (rule loop_M_Some)
  from moveMotorSequence_out [OF 2] 3
  show "out w' = out w @
           Println ''M received, starting sequence...'' #
           Println ''Moving to target...'' # pulses (stepsPerRevolution - currentPos w) @
           [Println ''Waiting...'', Delay 3000, Println ''Returning to base...''] @
           pulses (- stepsPerRevolution) @ [Println ''Sequence complete.'']"
    by (simp add: Serial_println_def)
  from moveMotorSequence_state(3) [OF 2] 3 show "rx w' = bs @ during e"
    by (simp add: Serial_println_def)
  from moveMotorSequence_state(1) [OF 2] 3 show "currentPos w' = 0"
    by (simp add: Serial_println_def)
qed

lemma loop_M_returns:
  assumes "rx w = char_M # bs"
    and "nat \<bar>stepsPerRevolution - currentPos w\<bar> \<le> stepsDue (outbound e)"
    and "nat stepsPerRevolution \<le> stepsDue (inbound e)"
  obtains w' where "loop rmp e w = Some w'"
proof -
  let ?v = "Serial_println ''M received, starting sequence...'' (w\<lparr>rx := bs\<rparr>)"
  have "currentPos ?v = currentPos w" by (simp add: Serial_println_def)
  with assms(2,3) have "moveMotorSequence rmp e ?v \<noteq> None"
    unfolding moveMotorSequence_Some_iff by simp
  then obtain w2 where "moveMotorSequence rmp e ?v = Some w2" by auto
  with assms(1) have "loop rmp e w = Some (Serial_println ''Sequence complete.'' w2)"
    by (simp add: loop_M)
  then show ?thesis by (rule that)
qed

lemma two_commands_run:
  fixes rmp :: ramp
  defines "e1 \<equiv> steady [0x4D]"
    and "e2 \<equiv> steady []"
    and "w0 \<equiv> setup_accel (power_on [0x4D])"
  obtains w1 w2 where "loop rmp e1 w0 = Some w1" and "loop rmp e2 w1 = Some w2"
    and "rx w1 = [0x4D]" and "rx w2 = []"
    and "statusLines (out w2) =
          [''Setup complete. AccelStepper configured.'',
           ''M received, starting sequence...'', ''Moving to target...'', ''Waiting...'',
           ''Returning to base...'', ''Sequence complete.'',
           ''M received, starting sequence...'', ''Moving to target...'', ''Waiting...'',
           ''Returning to base...'', ''Sequence complete.'']"
proof -
  have q0: "rx w0 = char_M # []" and p0: "currentPos w0 = 0"
    and o0: "out w0 = [Println ''Setup complete. AccelStepper configured.'']"
    by (simp_all add: w0_def setup_accel_def setup_with_simps power_on_simps char_M_hex)
  have "nat \<bar>stepsPerRevolution - currentPos w0\<bar> \<le> stepsDue (outbound e1)"
    and "nat stepsPerRevolution \<le> stepsDue (inbound e1)"
    by (simp_all add: p0 e1_def stepsDue_replicate stepsPerRevolution_def)
  with q0 obtain w1 where l1: "loop rmp e1 w0 = Some w1" by (rule loop_M_returns)
  from loop_M_result(2) [OF q0 l1] have q1: "rx w1 = char_M # []"
    by (simp add: e1_def char_M_hex)
  from loop_M_result(3) [OF q0 l1] have p1: "currentPos w1 = 0" .
  have "nat \<bar>stepsPerRevolution - currentPos w1\<bar> \<le> stepsDue (outbound e2)"
    and "nat stepsPerRevolution \<le> stepsDue (inbound e2)"
    by (simp_all add: p1 e2_def stepsDue_replicate stepsPerRevolution_def)
  with q1 obtain w2 where l2: "loop rmp e2 w1 = Some w2" by (rule loop_M_returns)
  from loop_M_result(2) [OF q1 l2] have q2: "rx w2 = []"
    by (simp add: e2_def)
  from loop_M_result(1) [OF q0 l1] loop_M_result(1) [OF q1 l2]
  have "statusLines (out w2) =
          [''Setup complete. AccelStepper configured.'',
           ''M received, starting sequence...'', ''Moving to target...'', ''Waiting...'',
           ''Returning to base...'', ''Sequence complete.'',
           ''M received, starting sequence...'', ''Moving to target...'', ''Waiting...'',
           ''Returning to base...'', ''Sequence complete.'']"
    by (simp add: o0 statusLines_append statusLines_pulses)
  with l1 l2 q1 q2 show ?thesis
    by (intro that [of w1 w2]) (simp_all add: char_M_hex)
qed

subsection \<open>The fallback sketch, and the two sketches side by side\<close>

lemma Stepper_step_simps:
  "out (Stepper_step n w) = out w @ pulses n"
  "rx (Stepper_step n w) = rx w"
  by (simp_all add: Stepper_step_def pulses_def)

lemma moveMotorSequence_fallback_simps:
  "out (moveMotorSequence_fallback e w) = out w @
     Println ''Moving to target...'' # pulses 1536 @
     [Println ''Waiting...'', Delay 3000, Println ''Returning to base...''] @ pulses (- 1536)"
  "rx (moveMotorSequence_fallback e w) = rx w @ during e"
  by (simp_all add: moveMotorSequence_fallback_def Stepper_step_simps Serial_println_def
      delay_def stepsPerRevolution_fallback_def)

lemma loop_fallback_idle: "rx w = [] \<Longrightarrow> loop_fallback e w = w"
  by (simp add: loop_fallback_def Serial_available_def)

lemma loop_fallback_other:
  "rx w = b # bs \<Longrightarrow> b \<noteq> char_M \<Longrightarrow> loop_fallback e w = w\<lparr>rx := bs\<rparr>"
  by (simp add: loop_fallback_def Serial_available_def Serial_read_def)

lemma loop_fallback_M:
  "rx w = char_M # bs \<Longrightarrow>
     loop_fallback e w =
       Serial_println ''Sequence complete.''
         (moveMotorSequence_fallback e
           (Serial_println ''M received, starting sequence...'' (w\<lparr>rx := bs\<rparr>)))"
  by (simp add: loop_fallback_def Serial_available_def Serial_read_def)

lemma loop_fallback_M_result:
  assumes "rx w = char_M # bs"
  shows "out (loop_fallback e w) = out w @
           Println ''M received, starting sequence...'' #
           Println ''Moving to target...'' # pulses 1536 @
           [Println ''Waiting...'', Delay 3000, Println ''Returning to base...''] @
           pulses (- 1536) @ [Println ''Sequence complete.'']"
    and "rx (loop_fallback e w) = bs @ during e"
  by (simp_all add: loop_fallback_M [OF assms] moveMotorSequence_fallback_simps
      Serial_println_def)

lemma loop_equivalent:
  assumes "rx v = rx w" and "currentPos w = 0" and "loop rmp e w = Some w'"
  shows "\<exists>t. out w' = out w @ t \<and> out (loop_fallback e v) = out v @ t \<and>
             rx (loop_fallback e v) = rx w' \<and> currentPos w' = 0"
proof (cases "rx w")
  case Nil
  with assms show ?thesis by (simp add: loop_idle loop_fallback_idle)
next
  case (Cons b bs)
  show ?thesis
  proof (cases "b = char_M")
    case True
    with Cons have q: "rx w = char_M # bs" by simp
    with assms(1) have qv: "rx v = char_M # bs" by simp
    from loop_M_result [OF q assms(3)] loop_fallback_M_result [OF qv, of e] assms(2)
    show ?thesis by (simp add: stepsPerRevolution_def)
  next
    case False
    from Cons assms(1) have qv: "rx v = b # bs" by simp
    from loop_other [OF Cons False, of rmp e] assms(3) have "w' = w\<lparr>rx := bs\<rparr>" by simp
    with loop_fallback_other [OF qv False, of e] assms(2) show ?thesis by simp
  qed
qed

lemma mainLoop_equivalent:
  "rx v = rx w \<Longrightarrow> currentPos w = 0 \<Longrightarrow> mainLoop rmp es w = Some w' \<Longrightarrow>
     \<exists>t. out w' = out w @ t \<and> out (mainLoop_fallback es v) = out v @ t \<and>
         rx (mainLoop_fallback es v) = rx w' \<and> currentPos w' = 0"
proof (induction es arbitrary: v w)
  case Nil
  then show ?case by simp
next
  case (Cons e es)
  from Cons.prems(3) obtain w1 where
    1: "loop rmp e w = Some w1" and 2: "mainLoop rmp es w1 = Some w'"
    by (auto split: option.splits)
  from loop_equivalent [OF Cons.prems(1,2) 1] obtain t1 where
    t1: "out w1 = out w @ t1" "out (loop_fallback e v) = out v @ t1"
    and q1: "rx (loop_fallback e v) = rx w1" and p1: "currentPos w1 = 0"
    by blast
  from Cons.IH [OF q1 p1 2] obtain t2 where
    "out w' = out w1 @ t2" "out (mainLoop_fallback es (loop_fallback e v)) = out (loop_fallback e v) @ t2"
    "rx (mainLoop_fallback es (loop_fallback e v)) = rx w'" "currentPos w' = 0"
    by blast
  with t1 have "out w' = out w @ (t1 @ t2) \<and>
      out (mainLoop_fallback (e # es) v) = out v @ (t1 @ t2) \<and>
      rx (mainLoop_fallback (e # es) v) = rx w' \<and> currentPos w' = 0"
    by simp
  then show ?case by blast
qed

lemma setup_fallback_simps:
  "rx (setup_fallback w) = rx w"
  "out (setup_fallback w) = out w @
     [Println ''Fallback Stepper sketch started. Send 'M' over serial to run sequence.'']"
  "rpm (setup_fallback w) = 15"
  "baud (setup_fallback w) = 9600"
  by (simp_all add: setup_fallback_def Stepper_setSpeed_def prims)

lemma setup_banners_differ:
  "out (setup_accel (power_on queue)) \<noteq> out (setup_fallback (power_on_fallback queue))"
  by (simp add: setup_accel_def setup_with_simps setup_fallback_simps power_on_def
      power_on_fallback_def)

subsection \<open>A stream with one command\<close>

lemma mainLoop_one_command:
  assumes "rx w = noise @ char_M # noise'" and "char_M \<notin> set noise" and "char_M \<notin> set noise'"
    and "length es = length (rx w)" and "mainLoop rmp es w = Some w'"
  shows "out w' = out w @
           Println ''M received, starting sequence...'' #
           Println ''Moving to target...'' # pulses (stepsPerRevolution - currentPos w) @
           [Println ''Waiting...'', Delay 3000, Println ''Returning to base...''] @
           pulses (- stepsPerRevolution) @ [Println ''Sequence complete.'']"
proof -
  from assms(1,4) have len: "length es = length noise + Suc (length noise')" by simp
  define es1 where "es1 = take (length noise) es"
  define em where "em = es ! length noise"
  define es2 where "es2 = drop (Suc (length noise)) es"
  from len have es: "es = es1 @ em # es2"
    by (simp add: es1_def em_def es2_def id_take_nth_drop [symmetric])
  from len have l1: "length es1 = length noise" and l2: "length es2 = length noise'"
    by (simp_all add: es1_def es2_def)
  let ?wa = "w\<lparr>rx := char_M # noise'\<rparr>"
  from assms(2) l1 assms(1) have 1: "mainLoop rmp es1 w = Some ?wa"
    by (rule mainLoop_noise)
  have qa: "rx ?wa = char_M # noise'" by simp
  from assms(5) have "mainLoop rmp (es1 @ em # es2) w = Some w'" by (simp add: es)
  with 1 obtain wb where
    2: "loop rmp em ?wa = Some wb" and 3: "mainLoop rmp es2 wb = Some w'"
    by (auto simp: mainLoop_append split: option.splits)
  from loop_M_result(2) [OF qa 2] have "rx wb = noise' @ during em" .
  from mainLoop_noise [where rmp = rmp, OF assms(3) l2 this] 3
  have "w' = wb\<lparr>rx := during em\<rparr>" by simp
  with loop_M_result(1) [OF qa 2] show ?thesis by simp
qed

lemma mainLoop_fallback_append:
  "mainLoop_fallback (es @ es') w = mainLoop_fallback es' (mainLoop_fallback es w)"
  by (induction es arbitrary: w) simp_all

lemma mainLoop_fallback_noise:
  "char_M \<notin> set noise \<Longrightarrow> length es = length noise \<Longrightarrow> rx w = noise @ rest \<Longrightarrow>
     mainLoop_fallback es w = w\<lparr>rx := rest\<rparr>"
proof (induction noise arbitrary: es w)
  case Nil
  then show ?case by simp
next
  case (Cons b noise)
  from Cons.prems(2) obtain e es' where es: "es = e # es'" and len: "length es' = length noise"
    by (cases es) simp_all
  from Cons.prems have l: "loop_fallback e w = w\<lparr>rx := noise @ rest\<rparr>"
    by (intro loop_fallback_other) auto
  from Cons.prems(1) have "char_M \<notin> set noise" by simp
  from Cons.IH [OF this len, of "w\<lparr>rx := noise @ rest\<rparr>"] l es
  show ?case by simp
qed

lemma mainLoop_fallback_one_command:
  assumes "rx w = noise @ char_M # noise'" and "char_M \<notin> set noise" and "char_M \<notin> set noise'"
    and "length es = length (rx w)"
  shows "out (mainLoop_fallback es w) = out w @
           Println ''M received, starting sequence...'' #
           Println ''Moving to target...'' # pulses 1536 @
           [Println ''Waiting...'', Delay 3000, Println ''Returning to base...''] @
           pulses (- 1536) @ [Println ''Sequence complete.'']"
proof -
  from assms(1,4) have len: "length es = length noise + Suc (length noise')" by simp
  define es1 where "es1 = take (length noise) es"
  define em where "em = es ! length noise"
  define es2 where "es2 = drop (Suc (length noise)) es"
  from len have es: "es = es1 @ em # es2"
    by (simp add: es1_def em_def es2_def id_take_nth_drop [symmetric])
  from len have l1: "length es1 = length noise" and l2: "length es2 = length noise'"
    by (simp_all add: es1_def es2_def)
  let ?wa = "w\<lparr>rx := char_M # noise'\<rparr>"
  let ?wb = "loop_fallback em ?wa"
  from assms(2) l1 assms(1) have 1: "mainLoop_fallback es1 w = ?wa"
    by (rule mainLoop_fallback_noise)
  have qa: "rx ?wa = char_M # noise'" by simp
  from loop_fallback_M_result(2) [OF qa, of em] have "rx ?wb = noise' @ during em" .
  from mainLoop_fallback_noise [OF assms(3) l2 this]
  have "mainLoop_fallback es2 ?wb = ?wb\<lparr>rx := during em\<rparr>" .
  with 1 have "mainLoop_fallback es w = ?wb\<lparr>rx := during em\<rparr>"
    by (simp add: es mainLoop_fallback_append)
  with loop_fallback_M_result(1) [OF qa, of em] show ?thesis by simp
qed

subsection \<open>Boards fresh from \<open>setup()\<close>, on a steady clock\<close>

lemma fresh_accel_simps:
  "rx (setup_accel (power_on q)) = q"
  "currentPos (setup_accel (power_on q)) = 0"
  "speed (setup_accel (power_on q)) = 0"
  "out (setup_accel (power_on q)) = [Println ''Setup complete. AccelStepper configured.'']"
  by (simp_all add: setup_accel_def setup_with_simps power_on_simps)

lemma fresh_fallback_simps:
  "rx (setup_fallback (power_on_fallback q)) = q"
  "out (setup_fallback (power_on_fallback q)) =
     [Println ''Fallback Stepper sketch started. Send 'M' over serial to run sequence.'']"
  by (simp_all add: setup_fallback_simps power_on_fallback_def)

lemma sequence_returns_on_steady_clock:
  assumes "currentPos w = 0"
  obtains w' where
    "moveMotorSequence rmp
       (steady d) w = Some w'"
proof -
  from assms have "moveMotorSequence rmp
       (steady d) w \<noteq> None"
    unfolding moveMotorSequence_Some_iff
    by (simp add: stepsDue_replicate stepsPerRevolution_def)
  then show ?thesis using that by auto
qed

lemma loop_returns_on_steady_clock:
  assumes "rx w = char_M # bs" and "currentPos w = 0"
  obtains w' where
    "loop rmp (steady d) w =
       Some w'"
proof (rule loop_M_returns [OF assms(1)])
  show "nat \<bar>stepsPerRevolution - currentPos w\<bar>
      \<le> stepsDue (outbound (steady d))"
    by (simp add: assms(2) stepsDue_replicate stepsPerRevolution_def)
  show "nat stepsPerRevolution
      \<le> stepsDue (inbound (steady d))"
    by (simp add: stepsDue_replicate stepsPerRevolution_def)
qed

section \<open>The claims\<close>

subsection \<open>C1: round trip\<close>

text \<open>
  C1. A run of the motion sequence that starts with the tracked position 0 and returns
  has first set the target to \<open>stepsPerRevolution\<close> and waited until the position was
  \<open>stepsPerRevolution\<close>, then set the target to 0 and waited until the position was 0:
  when the sequence returns, the tracked position is exactly 0 again.
\<close>

theorem round_trip:
  assumes "currentPos w = 0" and "moveMotorSequence rmp e w = Some w'"
  shows "\<exists>w1. targetPos (outboundStart w) = stepsPerRevolution \<and>
              moveLoop rmp (outbound e) (outboundStart w) = Some w1 \<and>
              currentPos w1 = stepsPerRevolution \<and>
              targetPos (returnStart e w1) = 0 \<and>
              moveLoop rmp (inbound e) (returnStart e w1) = Some w' \<and>
              currentPos w' = 0"
proof -
  from assms(2) obtain w1 where
    1: "moveLoop rmp (outbound e) (outboundStart w) = Some w1" and
    2: "moveLoop rmp (inbound e) (returnStart e w1) = Some w'"
    by (auto simp: moveMotorSequence_phases)
  from moveLoop_arrives [OF 1] have "currentPos w1 = stepsPerRevolution"
    by (simp add: outboundStart_simps)
  moreover from moveLoop_arrives [OF 2] have "currentPos w' = 0"
    by (simp add: returnStart_simps)
  ultimately show ?thesis
    using 1 2 by (auto simp: outboundStart_simps returnStart_simps)
qed

text \<open>A run of the sequence on a freshly set-up board and a steady clock.\<close>

theorem round_trip_witness:
  "currentPos (setup_accel (power_on [])) = 0 \<and>
   (\<exists>w'. moveMotorSequence (\<lambda>v a n. v + a) (steady [])
           (setup_accel (power_on [])) = Some w' \<and> currentPos w' = 0)"
proof -
  let ?w = "setup_accel (power_on [])"
  let ?e = "steady []"
  have 0: "currentPos ?w = 0"
    by (simp add: setup_accel_def setup_with_simps power_on_simps)
  have "moveMotorSequence (\<lambda>v a n. v + a) ?e ?w \<noteq> None"
    unfolding moveMotorSequence_Some_iff
    by (simp add: 0 stepsDue_replicate stepsPerRevolution_def)
  then obtain w' where 1: "moveMotorSequence (\<lambda>v a n. v + a) ?e ?w = Some w'"
    by auto
  from round_trip [OF 0 1] have "currentPos w' = 0" by blast
  with 0 1 show ?thesis by blast
qed


subsection \<open>C2: command filtering\<close>

text \<open>
  C2. In both sketches, for every byte that \<open>loop\<close> reads, the motion sequence is invoked
  if and only if the byte is the character \<open>M\<close> (\<open>0x4D\<close>): on \<open>M\<close> the result of \<open>loop\<close> is the
  sequence between its two status lines; on any other byte nothing happens except that
  the byte has left the queue, and nothing fails. Hence, when the input stream holds
  exactly one \<open>M\<close> among other bytes and \<open>loop\<close> is called once for every byte of it, what
  the board has done is exactly one sequence.
\<close>

theorem command_filtering:
  "(rx w = b # bs \<longrightarrow>
      loop rmp e w =
        (if b = 0x4D then
           map_option (Serial_println ''Sequence complete.'')
             (moveMotorSequence rmp e
               (Serial_println ''M received, starting sequence...'' (w\<lparr>rx := bs\<rparr>)))
         else Some (w\<lparr>rx := bs\<rparr>))) \<and>
   (rx v = b # bs \<longrightarrow>
      loop_fallback e v =
        (if b = 0x4D then
           Serial_println ''Sequence complete.''
             (moveMotorSequence_fallback e
               (Serial_println ''M received, starting sequence...'' (v\<lparr>rx := bs\<rparr>)))
         else v\<lparr>rx := bs\<rparr>)) \<and>
   (rx w = noise @ 0x4D # noise' \<and> 0x4D \<notin> set noise \<and> 0x4D \<notin> set noise' \<and>
    length es = length (rx w) \<and> mainLoop rmp es w = Some w' \<longrightarrow>
      out w' = out w @
        [Println ''M received, starting sequence...''] @
        [Println ''Moving to target...''] @ pulses (stepsPerRevolution - currentPos w) @
        [Println ''Waiting...'', Delay 3000] @
        [Println ''Returning to base...''] @ pulses (- stepsPerRevolution) @
        [Println ''Sequence complete.'']) \<and>
   (rx v = noise @ 0x4D # noise' \<and> 0x4D \<notin> set noise \<and> 0x4D \<notin> set noise' \<and>
    length es = length (rx v) \<longrightarrow>
      out (mainLoop_fallback es v) = out v @
        [Println ''M received, starting sequence...''] @
        [Println ''Moving to target...''] @ pulses stepsPerRevolution_fallback @
        [Println ''Waiting...'', Delay 3000] @
        [Println ''Returning to base...''] @ pulses (- stepsPerRevolution_fallback) @
        [Println ''Sequence complete.''])"
proof (intro conjI impI)
  assume "rx w = b # bs"
  then show "loop rmp e w =
        (if b = 0x4D then
           map_option (Serial_println ''Sequence complete.'')
             (moveMotorSequence rmp e
               (Serial_println ''M received, starting sequence...'' (w\<lparr>rx := bs\<rparr>)))
         else Some (w\<lparr>rx := bs\<rparr>))"
    using loop_M [of w bs rmp e] loop_other [of w b bs rmp e]
    by (simp add: char_M_hex)
next
  assume "rx v = b # bs"
  then show "loop_fallback e v =
        (if b = 0x4D then
           Serial_println ''Sequence complete.''
             (moveMotorSequence_fallback e
               (Serial_println ''M received, starting sequence...'' (v\<lparr>rx := bs\<rparr>)))
         else v\<lparr>rx := bs\<rparr>)"
    using loop_fallback_M [of v bs e] loop_fallback_other [of v b bs e]
    by (simp add: char_M_hex)
next
  assume "rx w = noise @ 0x4D # noise' \<and> 0x4D \<notin> set noise \<and> 0x4D \<notin> set noise' \<and>
    length es = length (rx w) \<and> mainLoop rmp es w = Some w'"
  then have "rx w = noise @ char_M # noise'" and "char_M \<notin> set noise"
    and "char_M \<notin> set noise'" and "length es = length (rx w)"
    and "mainLoop rmp es w = Some w'"
    by (simp_all add: char_M_hex)
  from mainLoop_one_command [OF this]
  show "out w' = out w @
        [Println ''M received, starting sequence...''] @
        [Println ''Moving to target...''] @ pulses (stepsPerRevolution - currentPos w) @
        [Println ''Waiting...'', Delay 3000] @
        [Println ''Returning to base...''] @ pulses (- stepsPerRevolution) @
        [Println ''Sequence complete.'']"
    by simp
next
  assume "rx v = noise @ 0x4D # noise' \<and> 0x4D \<notin> set noise \<and> 0x4D \<notin> set noise' \<and>
    length es = length (rx v)"
  then have "rx v = noise @ char_M # noise'" and "char_M \<notin> set noise"
    and "char_M \<notin> set noise'" and "length es = length (rx v)"
    by (simp_all add: char_M_hex)
  from mainLoop_fallback_one_command [OF this]
  show "out (mainLoop_fallback es v) = out v @
        [Println ''M received, starting sequence...''] @
        [Println ''Moving to target...''] @ pulses stepsPerRevolution_fallback @
        [Println ''Waiting...'', Delay 3000] @
        [Println ''Returning to base...''] @ pulses (- stepsPerRevolution_fallback) @
        [Println ''Sequence complete.'']"
    by (simp add: stepsPerRevolution_fallback_def)
qed

text \<open>The stream \<open>A\<close>, and the stream \<open>A M\<close> newline, on both boards, each after its own
  \<open>setup()\<close>, on a steady clock.\<close>

theorem command_filtering_witness:
  "loop (\<lambda>v a n. v + a) (steady [])
     (setup_accel (power_on [0x41])) = Some ((setup_accel (power_on [0x41]))\<lparr>rx := []\<rparr>) \<and>
   loop_fallback (steady [])
     (setup_fallback (power_on_fallback [0x41])) = (setup_fallback (power_on_fallback [0x41]))\<lparr>rx := []\<rparr> \<and>
   (\<exists>w'. mainLoop (\<lambda>v a n. v + a) (replicate 3 (steady []))
           (setup_accel (power_on [0x41, 0x4D, 0x0A])) = Some w' \<and>
         statusLines (out w') =
           [''Setup complete. AccelStepper configured.'',
            ''M received, starting sequence...'', ''Moving to target...'', ''Waiting...'',
            ''Returning to base...'', ''Sequence complete.'']) \<and>
   statusLines (out (mainLoop_fallback (replicate 3 (steady []))
       (setup_fallback (power_on_fallback [0x41, 0x4D, 0x0A])))) =
     [''Fallback Stepper sketch started. Send 'M' over serial to run sequence.'',
      ''M received, starting sequence...'', ''Moving to target...'', ''Waiting...'',
      ''Returning to base...'', ''Sequence complete.'']"
proof -
  let ?r = "\<lambda>(v::real) (a::real) (n::int). v + a"
  let ?e = "steady []"
  let ?a = "setup_accel (power_on [0x41])"
  let ?f = "setup_fallback (power_on_fallback [0x41])"
  let ?w = "setup_accel (power_on [0x41, 0x4D, 0x0A])"
  let ?v = "setup_fallback (power_on_fallback [0x41, 0x4D, 0x0A])"
  note cf = command_filtering [of _ "0x41" "[]" ?r ?e _ "[0x41]" "[0x0A]" "replicate 3 ?e"]
  have "rx ?a = 0x41 # []" by (simp add: fresh_accel_simps)
  from cf [of ?a ?v ?a, THEN conjunct1, rule_format, OF this]
  have A: "loop ?r ?e ?a = Some (?a\<lparr>rx := []\<rparr>)" by simp
  have "rx ?f = 0x41 # []" by (simp add: fresh_fallback_simps)
  from cf [of ?a ?f ?a, THEN conjunct2, THEN conjunct1, rule_format, OF this]
  have A': "loop_fallback ?e ?f = ?f\<lparr>rx := []\<rparr>" by simp
  have q: "rx ?w = [0x41] @ 0x4D # [0x0A]" by (simp add: fresh_accel_simps)
  have 1: "loop ?r ?e ?w = Some (?w\<lparr>rx := [char_M, 0x0A]\<rparr>)"
  proof (rule loop_other)
    show "rx ?w = 0x41 # [char_M, 0x0A]" by (simp add: q char_M_hex)
    show "(0x41 :: byte) \<noteq> char_M" by (simp add: char_M_hex)
  qed
  obtain c where 3: "loop ?r ?e (?w\<lparr>rx := [char_M, 0x0A]\<rparr>) = Some c"
    by (rule loop_returns_on_steady_clock [of "?w\<lparr>rx := [char_M, 0x0A]\<rparr>" "[0x0A]" ?r "[]"])
      (simp_all add: fresh_accel_simps)
  from loop_M_result(2) [OF _ 3, of "[0x0A]"] have "rx c = [0x0A]" by simp
  then have 4: "loop ?r ?e c = Some (c\<lparr>rx := []\<rparr>)"
  proof (rule loop_other)
    show "(0x0A :: byte) \<noteq> char_M" by (simp add: char_M_hex)
  qed
  have m: "mainLoop ?r (replicate 3 ?e) ?w = Some (c\<lparr>rx := []\<rparr>)"
    by (simp add: numeral_3_eq_3 1 3 4)
  have "rx ?w = [0x41] @ 0x4D # [0x0A] \<and> 0x4D \<notin> set [0x41 :: byte] \<and> 0x4D \<notin> set [0x0A :: byte] \<and>
    length (replicate 3 ?e) = length (rx ?w) \<and> mainLoop ?r (replicate 3 ?e) ?w = Some (c\<lparr>rx := []\<rparr>)"
    using m by (simp add: q)
  from cf [of ?w ?v "c\<lparr>rx := []\<rparr>", THEN conjunct2, THEN conjunct2, THEN conjunct1, rule_format, OF this]
  have "statusLines (out (c\<lparr>rx := []\<rparr>)) =
           [''Setup complete. AccelStepper configured.'',
            ''M received, starting sequence...'', ''Moving to target...'', ''Waiting...'',
            ''Returning to base...'', ''Sequence complete.'']"
    by (simp add: statusLines_append statusLines_pulses fresh_accel_simps)
  with m have B: "\<exists>w'. mainLoop ?r (replicate 3 ?e) ?w = Some w' \<and>
         statusLines (out w') =
           [''Setup complete. AccelStepper configured.'',
            ''M received, starting sequence...'', ''Moving to target...'', ''Waiting...'',
            ''Returning to base...'', ''Sequence complete.'']"
    by blast
  have "rx ?v = [0x41] @ 0x4D # [0x0A] \<and> 0x4D \<notin> set [0x41 :: byte] \<and> 0x4D \<notin> set [0x0A :: byte] \<and>
    length (replicate 3 ?e) = length (rx ?v)"
    by (simp add: fresh_fallback_simps)
  from cf [of ?w ?v "c\<lparr>rx := []\<rparr>", THEN conjunct2, THEN conjunct2, THEN conjunct2, rule_format, OF this]
  have C: "statusLines (out (mainLoop_fallback (replicate 3 ?e) ?v)) =
     [''Fallback Stepper sketch started. Send 'M' over serial to run sequence.'',
      ''M received, starting sequence...'', ''Moving to target...'', ''Waiting...'',
      ''Returning to base...'', ''Sequence complete.'']"
    by (simp add: statusLines_append statusLines_pulses fresh_fallback_simps)
  from A A' B C show ?thesis by blast
qed


subsection \<open>C3: three phases in a fixed order\<close>

text \<open>
  C3. Every invocation of the motion sequence that returns has done the same three things
  in the same order, whatever the environment: the line \<open>Moving to target...\<close> and the
  pulses that take the motor to \<open>stepsPerRevolution\<close>; the line \<open>Waiting...\<close> and the pause of
  3000 ms; the line \<open>Returning to base...\<close> and the pulses that take the motor back to 0.
  The dispatcher prints \<open>M received, starting sequence...\<close> before the sequence and
  \<open>Sequence complete.\<close> after it.
\<close>

theorem three_phases_in_order:
  "(moveMotorSequence rmp e w = Some w' \<longrightarrow>
      out w' = out w @
        [Println ''Moving to target...''] @ pulses (stepsPerRevolution - currentPos w) @
        [Println ''Waiting...'', Delay 3000] @
        [Println ''Returning to base...''] @ pulses (- stepsPerRevolution)) \<and>
   (rx w = char_M # bs \<and> loop rmp e w = Some w'' \<longrightarrow>
      out w'' = out w @
        [Println ''M received, starting sequence...''] @
        [Println ''Moving to target...''] @ pulses (stepsPerRevolution - currentPos w) @
        [Println ''Waiting...'', Delay 3000] @
        [Println ''Returning to base...''] @ pulses (- stepsPerRevolution) @
        [Println ''Sequence complete.''] \<and>
      statusLines (out w'') = statusLines (out w) @
        [''M received, starting sequence...'', ''Moving to target...'', ''Waiting...'',
         ''Returning to base...'', ''Sequence complete.''])"
proof (intro conjI impI)
  assume "moveMotorSequence rmp e w = Some w'"
  from moveMotorSequence_out [OF this]
  show "out w' = out w @
        [Println ''Moving to target...''] @ pulses (stepsPerRevolution - currentPos w) @
        [Println ''Waiting...'', Delay 3000] @
        [Println ''Returning to base...''] @ pulses (- stepsPerRevolution)"
    by simp
next
  assume a: "rx w = char_M # bs \<and> loop rmp e w = Some w''"
  let ?v = "Serial_println ''M received, starting sequence...'' (w\<lparr>rx := bs\<rparr>)"
  from a obtain w2 where
    2: "moveMotorSequence rmp e ?v = Some w2" and
    3: "w'' = Serial_println ''Sequence complete.'' w2"
    by (auto simp: loop_M)
  from moveMotorSequence_out [OF 2] 3
  show o: "out w'' = out w @
        [Println ''M received, starting sequence...''] @
        [Println ''Moving to target...''] @ pulses (stepsPerRevolution - currentPos w) @
        [Println ''Waiting...'', Delay 3000] @
        [Println ''Returning to base...''] @ pulses (- stepsPerRevolution) @
        [Println ''Sequence complete.'']"
    by (simp add: Serial_println_def)
  show "statusLines (out w'') = statusLines (out w) @
        [''M received, starting sequence...'', ''Moving to target...'', ''Waiting...'',
         ''Returning to base...'', ''Sequence complete.'']"
    unfolding o by (simp add: statusLines_append statusLines_pulses)
qed

text \<open>The sequence alone, and one \<open>M\<close> through the dispatcher, on a freshly set-up board
  and a steady clock.\<close>

theorem three_phases_in_order_witness:
  "(\<exists>w'. moveMotorSequence (\<lambda>v a n. v + a) (steady [])
          (setup_accel (power_on [])) = Some w' \<and>
        statusLines (out w') =
          [''Setup complete. AccelStepper configured.'',
           ''Moving to target...'', ''Waiting...'', ''Returning to base...'']) \<and>
   (\<exists>w''. loop (\<lambda>v a n. v + a) (steady [])
          (setup_accel (power_on [char_M])) = Some w'' \<and>
        statusLines (out w'') =
          [''Setup complete. AccelStepper configured.'',
           ''M received, starting sequence...'', ''Moving to target...'', ''Waiting...'',
           ''Returning to base...'', ''Sequence complete.''])"
proof -
  let ?r = "\<lambda>(v::real) (a::real) (n::int). v + a"
  let ?e = "steady []"
  let ?s = "setup_accel (power_on [])"
  let ?w = "setup_accel (power_on [char_M])"
  obtain w' where 1: "moveMotorSequence ?r ?e ?s = Some w'"
    by (rule sequence_returns_on_steady_clock [of ?s ?r "[]"]) (simp add: fresh_accel_simps)
  from three_phases_in_order [of ?r ?e ?s w' "[]" w', THEN conjunct1, rule_format, OF 1]
  have A: "statusLines (out w') =
          [''Setup complete. AccelStepper configured.'',
           ''Moving to target...'', ''Waiting...'', ''Returning to base...'']"
    by (simp add: fresh_accel_simps statusLines_append statusLines_pulses)
  have q: "rx ?w = char_M # []" by (simp add: fresh_accel_simps)
  obtain w'' where 2: "loop ?r ?e ?w = Some w''"
    by (rule loop_returns_on_steady_clock [of ?w "[]" ?r "[]"]) (simp_all add: fresh_accel_simps)
  from q 2 have "rx ?w = char_M # [] \<and> loop ?r ?e ?w = Some w''" by simp
  from three_phases_in_order [of ?r ?e ?w w'' "[]" w'', THEN conjunct2, rule_format, OF this,
      THEN conjunct2]
  have B: "statusLines (out w'') =
          [''Setup complete. AccelStepper configured.'',
           ''M received, starting sequence...'', ''Moving to target...'', ''Waiting...'',
           ''Returning to base...'', ''Sequence complete.'']"
    by (simp add: fresh_accel_simps)
  from 1 A 2 B show ?thesis by blast
qed


subsection \<open>C4: monotonic convergence and termination\<close>

text \<open>
  C4. A call of the step function that emits a step lowers the absolute value of
  \<open>stepsToGo\<close> by exactly one and any other call leaves it as it is, so the absolute value
  never grows. A busy-wait loop returns exactly when the clock lets as many calls emit a
  step as the distance is long, and it returns with the distance 0. The motion sequence
  returns exactly when both of its loops do, and then both moves have ended at distance 0.
\<close>

theorem monotonic_convergence:
  "\<bar>distanceToGo (run rmp due w)\<bar> =
     (if due \<and> distanceToGo w \<noteq> 0 then \<bar>distanceToGo w\<bar> - 1 else \<bar>distanceToGo w\<bar>) \<and>
   (moveLoop rmp clock w \<noteq> None) = (nat \<bar>distanceToGo w\<bar> \<le> stepsDue clock) \<and>
   (moveLoop rmp clock w = Some w' \<longrightarrow> distanceToGo w' = 0) \<and>
   (moveMotorSequence rmp e w \<noteq> None) =
     (nat \<bar>stepsPerRevolution - currentPos w\<bar> \<le> stepsDue (outbound e) \<and>
      nat stepsPerRevolution \<le> stepsDue (inbound e)) \<and>
   (moveMotorSequence rmp e w = Some w'' \<longrightarrow>
      (\<exists>w1. moveLoop rmp (outbound e) (outboundStart w) = Some w1 \<and> distanceToGo w1 = 0 \<and>
            moveLoop rmp (inbound e) (returnStart e w1) = Some w'' \<and> distanceToGo w'' = 0))"
proof (intro conjI impI)
  show "\<bar>distanceToGo (run rmp due w)\<bar> =
     (if due \<and> distanceToGo w \<noteq> 0 then \<bar>distanceToGo w\<bar> - 1 else \<bar>distanceToGo w\<bar>)"
    by (simp add: distanceToGo_run sgn_if)
  show "(moveLoop rmp clock w \<noteq> None) = (nat \<bar>distanceToGo w\<bar> \<le> stepsDue clock)"
    by (rule moveLoop_Some_iff)
  show "(moveMotorSequence rmp e w \<noteq> None) =
     (nat \<bar>stepsPerRevolution - currentPos w\<bar> \<le> stepsDue (outbound e) \<and>
      nat stepsPerRevolution \<le> stepsDue (inbound e))"
    by (rule moveMotorSequence_Some_iff)
next
  assume "moveLoop rmp clock w = Some w'"
  from moveLoop_arrives [OF this] show "distanceToGo w' = 0"
    by (simp add: distanceToGo_def)
next
  assume "moveMotorSequence rmp e w = Some w''"
  then obtain w1 where
    1: "moveLoop rmp (outbound e) (outboundStart w) = Some w1" and
    2: "moveLoop rmp (inbound e) (returnStart e w1) = Some w''"
    by (auto simp: moveMotorSequence_phases)
  from moveLoop_arrives [OF 1] moveLoop_arrives [OF 2]
  have "distanceToGo w1 = 0" and "distanceToGo w'' = 0"
    by (simp_all add: distanceToGo_def)
  with 1 2 show "\<exists>w1. moveLoop rmp (outbound e) (outboundStart w) = Some w1 \<and> distanceToGo w1 = 0 \<and>
            moveLoop rmp (inbound e) (returnStart e w1) = Some w'' \<and> distanceToGo w'' = 0"
    by blast
qed

text \<open>A move over three steps on a clock that skips one call, and the whole sequence on a
  steady clock.\<close>

theorem monotonic_convergence_witness:
  "moveLoop (\<lambda>v a n. v + a) [True, False, True, True] (moveTo 3 (setup_accel (power_on []))) \<noteq> None \<and>
   (\<exists>w'. moveLoop (\<lambda>v a n. v + a) [True, False, True, True] (moveTo 3 (setup_accel (power_on []))) = Some w' \<and>
         distanceToGo w' = 0) \<and>
   (\<exists>w''. moveMotorSequence (\<lambda>v a n. v + a) (steady [])
            (setup_accel (power_on [])) = Some w'' \<and> distanceToGo w'' = 0)"
proof -
  let ?r = "\<lambda>(v::real) (a::real) (n::int). v + a"
  let ?w = "moveTo 3 (setup_accel (power_on []))"
  let ?c = "[True, False, True, True]"
  let ?e = "steady []"
  let ?s = "setup_accel (power_on [])"
  have d: "distanceToGo ?w = 3"
    by (simp add: distanceToGo_def moveTo_def setup_accel_def setup_with_simps power_on_simps)
  have c: "stepsDue ?c = 3"
    by (simp add: stepsDue_def)
  have p: "currentPos ?s = 0"
    by (simp add: setup_accel_def setup_with_simps power_on_simps)
  have "(moveLoop ?r ?c ?w \<noteq> None) = (nat \<bar>distanceToGo ?w\<bar> \<le> stepsDue ?c)"
    by (rule monotonic_convergence [of ?r True ?w ?c ?w ?e ?w,
          THEN conjunct2, THEN conjunct1])
  then have 1: "moveLoop ?r ?c ?w \<noteq> None"
    unfolding d c by simp
  then obtain w' where 2: "moveLoop ?r ?c ?w = Some w'" by auto
  have "moveLoop ?r ?c ?w = Some w' \<longrightarrow> distanceToGo w' = 0"
    by (rule monotonic_convergence [of ?r True ?w ?c w' ?e ?w,
          THEN conjunct2, THEN conjunct2, THEN conjunct1])
  with 2 have 3: "distanceToGo w' = 0" by simp
  have "(moveMotorSequence ?r ?e ?s \<noteq> None) =
     (nat \<bar>stepsPerRevolution - currentPos ?s\<bar> \<le> stepsDue (outbound ?e) \<and>
      nat stepsPerRevolution \<le> stepsDue (inbound ?e))"
    by (rule monotonic_convergence [of ?r True ?s ?c ?w ?e ?w,
          THEN conjunct2, THEN conjunct2, THEN conjunct2, THEN conjunct1])
  then have "moveMotorSequence ?r ?e ?s \<noteq> None"
    unfolding p by (simp add: stepsDue_replicate stepsPerRevolution_def)
  then obtain w'' where 4: "moveMotorSequence ?r ?e ?s = Some w''" by auto
  have "moveMotorSequence ?r ?e ?s = Some w'' \<longrightarrow>
      (\<exists>w1. moveLoop ?r (outbound ?e) (outboundStart ?s) = Some w1 \<and> distanceToGo w1 = 0 \<and>
            moveLoop ?r (inbound ?e) (returnStart ?e w1) = Some w'' \<and> distanceToGo w'' = 0)"
    by (rule monotonic_convergence [of ?r True ?s ?c ?w ?e w'',
          THEN conjunct2, THEN conjunct2, THEN conjunct2, THEN conjunct2])
  with 4 have 5: "distanceToGo w'' = 0" by blast
  from 1 2 3 4 5 show ?thesis by blast
qed


subsection \<open>C5: the speed bound\<close>

text \<open>
  C5. The commanded speed never exceeds the configured \<open>maxSpeed\<close>: a call of the step
  function keeps the speed at or below \<open>maxSpeed\<close>, whatever the ramp proposes; and in every
  state the sketch can reach after \<open>setup()\<close>, hence at every point of every move,
  \<open>maxSpeed\<close> is the shipped 400 steps per second and the speed is at most 400.
\<close>

theorem speed_bound:
  "(speed w \<le> maxSpeed w \<longrightarrow> speed (run rmp due w) \<le> maxSpeed (run rmp due w)) \<and>
   (reachable rmp w \<longrightarrow>
      speed w \<le> maxSpeed w \<and> maxSpeed w = DEFAULT_MAX_SPEED \<and> speed w \<le> 400) \<and>
   (speed p = 0 \<and> mainLoop rmp es (setup_accel p) = Some w' \<longrightarrow>
      reachable rmp w' \<and> speed w' \<le> 400)"
proof (intro conjI impI)
  assume "speed w \<le> maxSpeed w"
  then show "speed (run rmp due w) \<le> maxSpeed (run rmp due w)" by (rule speed_run)
next
  assume r: "reachable rmp w"
  from reachable_invariant [OF r]
  show "speed w \<le> maxSpeed w" and "maxSpeed w = DEFAULT_MAX_SPEED" and "speed w \<le> 400"
    by (simp_all add: DEFAULT_MAX_SPEED_def)
next
  assume a: "speed p = 0 \<and> mainLoop rmp es (setup_accel p) = Some w'"
  then have "reachable rmp (setup_accel p)" by (simp add: after_setup)
  from mainLoop_reachable [OF this] a show r: "reachable rmp w'" by blast
  from reachable_invariant [OF r] show "speed w' \<le> 400"
    by (simp add: DEFAULT_MAX_SPEED_def)
qed

text \<open>The first step of the outbound move, with a ramp that asks for 1000 steps per second
  more at every step: the speed commanded is 400. One dispatched sequence with the same
  ramp ends in a reachable state, at a speed of at most 400.\<close>

theorem speed_bound_witness:
  "speed (run (\<lambda>v a n. v + 1000) True (outboundStart (setup_accel (power_on [])))) = 400 \<and>
   speed (run (\<lambda>v a n. v + 1000) True (outboundStart (setup_accel (power_on []))))
     \<le> maxSpeed (run (\<lambda>v a n. v + 1000) True (outboundStart (setup_accel (power_on [])))) \<and>
   reachable (\<lambda>v a n. v + 1000) (run (\<lambda>v a n. v + 1000) True (outboundStart (setup_accel (power_on [])))) \<and>
   speed (run (\<lambda>v a n. v + 1000) True (outboundStart (setup_accel (power_on [])))) \<le> 400 \<and>
   (\<exists>w'. mainLoop (\<lambda>v a n. v + 1000)
           [steady []]
           (setup_accel (power_on [0x4D])) = Some w' \<and>
         reachable (\<lambda>v a n. v + 1000) w' \<and> speed w' \<le> 400)"
proof -
  let ?r = "\<lambda>(v::real) (a::real) (n::int). v + 1000"
  let ?e = "steady []"
  let ?s = "outboundStart (setup_accel (power_on []))"
  let ?w = "setup_accel (power_on [0x4D])"
  note sb = speed_bound [of _ ?r True "power_on [0x4D]" "[?e]"]
  have "reachable ?r (setup_accel (power_on []))"
    by (rule after_setup) (simp add: power_on_simps)
  then have "reachable ?r ?s"
    unfolding outboundStart_def by (intro after_moveTo after_println)
  then have r: "reachable ?r (run ?r True ?s)" by (rule after_run)
  have v: "speed (run ?r True ?s) = 400"
    by (simp add: run_def Let_def outboundStart_simps fresh_accel_simps setup_accel_simps
        power_on_simps stepsPerRevolution_def DEFAULT_MAX_SPEED_def)
  have "speed ?s \<le> maxSpeed ?s"
    by (simp add: outboundStart_simps setup_accel_simps power_on_simps DEFAULT_MAX_SPEED_def)
  from sb [of ?s ?s, THEN conjunct1, rule_format, OF this]
  have A: "speed (run ?r True ?s) \<le> maxSpeed (run ?r True ?s)" .
  from sb [of "run ?r True ?s" ?s, THEN conjunct2, THEN conjunct1, rule_format, OF r]
  have B: "speed (run ?r True ?s) \<le> 400" by simp
  obtain w1 where 1: "loop ?r ?e ?w = Some w1"
    by (rule loop_returns_on_steady_clock [of ?w "[]" ?r "[]"])
      (simp_all add: fresh_accel_simps char_M_hex)
  then have m: "mainLoop ?r [?e] ?w = Some w1" by simp
  then have "speed (power_on [0x4D]) = 0 \<and> mainLoop ?r [?e] (setup_accel (power_on [0x4D])) = Some w1"
    by (simp add: power_on_simps)
  from sb [of ?s w1, THEN conjunct2, THEN conjunct2, rule_format, OF this]
  have C: "reachable ?r w1 \<and> speed w1 \<le> 400" .
  from v A r B m C show ?thesis by blast
qed


subsection \<open>C7: the dwell\<close>

text \<open>
  C7. Between the end of the outbound move and the start of the return move the sequence
  prints \<open>Waiting...\<close>, pauses once for 3000 ms, and prints \<open>Returning to base...\<close>; neither
  move contains a pause. The time the sequence spends in blocking pauses is therefore
  3000 ms, all of it between the two moves.
\<close>

theorem dwell_between_moves:
  assumes "moveMotorSequence rmp e w = Some w'"
  shows "\<exists>w1. moveLoop rmp (outbound e) (outboundStart w) = Some w1 \<and>
              pauseTime (out w1) = pauseTime (out w) \<and>
              out (returnStart e w1) =
                out w1 @ [Println ''Waiting...'', Delay 3000, Println ''Returning to base...''] \<and>
              pauseTime (out (returnStart e w1)) = pauseTime (out w1) + 3000 \<and>
              moveLoop rmp (inbound e) (returnStart e w1) = Some w' \<and>
              pauseTime (out w') = pauseTime (out (returnStart e w1))"
proof -
  from assms obtain w1 where
    1: "moveLoop rmp (outbound e) (outboundStart w) = Some w1" and
    2: "moveLoop rmp (inbound e) (returnStart e w1) = Some w'"
    by (auto simp: moveMotorSequence_phases)
  from moveLoop_out [OF 1] have a: "pauseTime (out w1) = pauseTime (out w)"
    by (simp add: outboundStart_simps pauseTime_append pauseTime_pulses)
  have b: "pauseTime (out (returnStart e w1)) = pauseTime (out w1) + 3000"
    by (simp add: returnStart_simps pauseTime_append)
  from moveLoop_out [OF 2] have c: "pauseTime (out w') = pauseTime (out (returnStart e w1))"
    by (simp add: pauseTime_append pauseTime_pulses)
  from 1 2 a b c show ?thesis
    by (auto simp: returnStart_simps)
qed

text \<open>The sequence on a freshly set-up board and a steady clock.\<close>

theorem dwell_between_moves_witness:
  "\<exists>w'. moveMotorSequence (\<lambda>v a n. v + a) (steady [])
          (setup_accel (power_on [])) = Some w' \<and>
        pauseTime (out w') = 3000"
proof -
  let ?r = "\<lambda>(v::real) (a::real) (n::int). v + a"
  let ?e = "steady []"
  let ?s = "setup_accel (power_on [])"
  have "moveMotorSequence ?r ?e ?s \<noteq> None"
    unfolding moveMotorSequence_Some_iff
    by (simp add: stepsDue_replicate stepsPerRevolution_def setup_accel_def
        setup_with_simps power_on_simps)
  then obtain w' where 1: "moveMotorSequence ?r ?e ?s = Some w'" by auto
  from dwell_between_moves [OF 1] have "pauseTime (out w') = pauseTime (out ?s) + 3000"
    by auto
  then have "pauseTime (out w') = 3000"
    by (simp add: setup_accel_def setup_with_simps power_on_simps)
  with 1 show ?thesis by blast
qed


subsection \<open>C8: zero or negative profile settings\<close>




subsection \<open>C9: a command that arrives while a sequence is executing\<close>

text \<open>
  C9, as stated, fails. One \<open>M\<close> is waiting when \<open>loop\<close> is called; a second \<open>M\<close> arrives
  during the dwell of the sequence the first one started. The second \<open>M\<close> is still in the
  receive queue when the sequence returns; the next call of \<open>loop\<close> reads it and runs the
  sequence a second time.
\<close>

theorem second_command_counterexample:
  "map_option (\<lambda>w. (rx w, statusLines (out w)))
     (mainLoop (\<lambda>v a n. v + a)
        [steady [0x4D], steady []]
        (setup_accel (power_on [0x4D]))) =
   Some ([],
     [''Setup complete. AccelStepper configured.'',
      ''M received, starting sequence...'', ''Moving to target...'', ''Waiting...'',
      ''Returning to base...'', ''Sequence complete.'',
      ''M received, starting sequence...'', ''Moving to target...'', ''Waiting...'',
      ''Returning to base...'', ''Sequence complete.''])"
proof -
  obtain w1 w2 where
    "loop (\<lambda>v a n. v + a) (steady [0x4D])
       (setup_accel (power_on [0x4D])) = Some w1"
    and "loop (\<lambda>v a n. v + a)
       (steady []) w1 = Some w2"
    and "rx w2 = []"
    and "statusLines (out w2) =
          [''Setup complete. AccelStepper configured.'',
           ''M received, starting sequence...'', ''Moving to target...'', ''Waiting...'',
           ''Returning to base...'', ''Sequence complete.'',
           ''M received, starting sequence...'', ''Moving to target...'', ''Waiting...'',
           ''Returning to base...'', ''Sequence complete.'']"
    by (rule two_commands_run)
  then show ?thesis by simp
qed

text \<open>
  C9, amended. While a sequence executes no byte is read: the bytes that arrive in the
  meantime stay in the receive queue, behind those already waiting. \<open>loop\<close> takes one byte
  from the queue per call. An \<open>M\<close> that arrived while a sequence was executing is therefore
  read by a later call of \<open>loop\<close>, which runs the sequence again.
\<close>

theorem arrivals_wait_in_queue:
  "(moveMotorSequence rmp e w = Some w' \<longrightarrow> rx w' = rx w @ during e) \<and>
   (rx w = char_M # bs \<and> loop rmp e w = Some w1 \<longrightarrow> rx w1 = bs @ during e) \<and>
   (rx w = [char_M] \<and> during e = char_M # later \<and>
    loop rmp e w = Some w1 \<and> loop rmp e' w1 = Some w2 \<longrightarrow>
      rx w1 = char_M # later \<and>
      rx w2 = later @ during e' \<and>
      out w2 = out w1 @
        [Println ''M received, starting sequence...''] @
        [Println ''Moving to target...''] @ pulses stepsPerRevolution @
        [Println ''Waiting...'', Delay 3000] @
        [Println ''Returning to base...''] @ pulses (- stepsPerRevolution) @
        [Println ''Sequence complete.''])"
proof (intro conjI impI)
  assume "moveMotorSequence rmp e w = Some w'"
  then show "rx w' = rx w @ during e" by (rule moveMotorSequence_state(3))
next
  assume "rx w = char_M # bs \<and> loop rmp e w = Some w1"
  then show "rx w1 = bs @ during e" using loop_M_result(2) by blast
next
  assume a: "rx w = [char_M] \<and> during e = char_M # later \<and>
    loop rmp e w = Some w1 \<and> loop rmp e' w1 = Some w2"
  then have 1: "rx w = char_M # []" and l1: "loop rmp e w = Some w1"
    and l2: "loop rmp e' w1 = Some w2" and d: "during e = char_M # later"
    by simp_all
  from loop_M_result(2) [OF 1 l1] d show q: "rx w1 = char_M # later" by simp
  from loop_M_result(3) [OF 1 l1] have p: "currentPos w1 = 0" .
  from loop_M_result(2) [OF q l2] show "rx w2 = later @ during e'" .
  from loop_M_result(1) [OF q l2] p
  show "out w2 = out w1 @
        [Println ''M received, starting sequence...''] @
        [Println ''Moving to target...''] @ pulses stepsPerRevolution @
        [Println ''Waiting...'', Delay 3000] @
        [Println ''Returning to base...''] @ pulses (- stepsPerRevolution) @
        [Println ''Sequence complete.'']"
    by simp
qed

text \<open>The run of the counterexample, call by call.\<close>

theorem arrivals_wait_in_queue_witness:
  "\<exists>wm w1 w2.
     moveMotorSequence (\<lambda>v a n. v + a) (steady [0x4D])
       (Serial_println ''M received, starting sequence...'' ((setup_accel (power_on [0x4D]))\<lparr>rx := []\<rparr>))
       = Some wm \<and>
     rx wm = [0x4D] \<and>
     loop (\<lambda>v a n. v + a) (steady [0x4D])
       (setup_accel (power_on [0x4D])) = Some w1 \<and>
     rx w1 = [0x4D] \<and>
     loop (\<lambda>v a n. v + a)
       (steady []) w1 = Some w2 \<and>
     rx w2 = [] \<and>
     out w2 = out w1 @
        [Println ''M received, starting sequence...''] @
        [Println ''Moving to target...''] @ pulses stepsPerRevolution @
        [Println ''Waiting...'', Delay 3000] @
        [Println ''Returning to base...''] @ pulses (- stepsPerRevolution) @
        [Println ''Sequence complete.'']"
proof -
  let ?r = "\<lambda>(v::real) (a::real) (n::int). v + a"
  let ?e1 = "steady [0x4D]"
  let ?e2 = "steady []"
  let ?w = "setup_accel (power_on [0x4D])"
  let ?m = "Serial_println ''M received, starting sequence...'' (?w\<lparr>rx := []\<rparr>)"
  have q: "rx ?w = char_M # []" by (simp add: fresh_accel_simps char_M_hex)
  obtain w1 where l1: "loop ?r ?e1 ?w = Some w1"
    by (rule loop_returns_on_steady_clock [of ?w "[]" ?r "[0x4D]"])
      (simp_all add: fresh_accel_simps char_M_hex)
  from q l1 obtain wm where s: "moveMotorSequence ?r ?e1 ?m = Some wm"
    by (rule loop_M_Some)
  from arrivals_wait_in_queue [of ?r ?e1 ?m wm, THEN conjunct1, rule_format, OF s]
  have A: "rx wm = [0x4D]" by (simp add: Serial_println_def)
  from q l1 have "rx ?w = char_M # [] \<and> loop ?r ?e1 ?w = Some w1" by simp
  from arrivals_wait_in_queue [of ?r ?e1 ?w _ "[]" w1, THEN conjunct2, THEN conjunct1,
      rule_format, OF this]
  have q1: "rx w1 = [0x4D]" by simp
  from loop_M_result(3) [OF q l1] have p1: "currentPos w1 = 0" .
  obtain w2 where l2: "loop ?r ?e2 w1 = Some w2"
    by (rule loop_returns_on_steady_clock [of w1 "[]" ?r "[]"])
      (simp_all add: q1 p1 char_M_hex)
  from q l1 l2 have "rx ?w = [char_M] \<and> during ?e1 = char_M # [] \<and>
    loop ?r ?e1 ?w = Some w1 \<and> loop ?r ?e2 w1 = Some w2"
    by (simp add: char_M_hex)
  from arrivals_wait_in_queue [of ?r ?e1 ?w _ _ w1 "[]" ?e2 w2, THEN conjunct2, THEN conjunct2,
      rule_format, OF this]
  have B: "rx w2 = [] \<and> out w2 = out w1 @
        [Println ''M received, starting sequence...''] @
        [Println ''Moving to target...''] @ pulses stepsPerRevolution @
        [Println ''Waiting...'', Delay 3000] @
        [Println ''Returning to base...''] @ pulses (- stepsPerRevolution) @
        [Println ''Sequence complete.'']"
    by simp
  from s A l1 q1 l2 B show ?thesis by blast
qed


subsection \<open>C10: the two sketches\<close>

text \<open>
  C10, as stated, fails: the two sketches do not print the same status lines. Each
  \<open>setup()\<close> prints a start-up line of its own, so from power-on, with the same command
  \<open>M\<close> waiting, the serial output of the two boards differs in its first line.
\<close>

theorem startup_lines_counterexample:
  "map_option (\<lambda>w. statusLines (out w))
     (mainLoop (\<lambda>v a n. v + a) [steady []] (setup_accel (power_on [0x4D]))) =
     Some [''Setup complete. AccelStepper configured.'',
           ''M received, starting sequence...'', ''Moving to target...'', ''Waiting...'',
           ''Returning to base...'', ''Sequence complete.''] \<and>
   statusLines (out (mainLoop_fallback [steady []] (setup_fallback (power_on_fallback [0x4D])))) =
     [''Fallback Stepper sketch started. Send 'M' over serial to run sequence.'',
      ''M received, starting sequence...'', ''Moving to target...'', ''Waiting...'',
      ''Returning to base...'', ''Sequence complete.''] \<and>
   map_option (\<lambda>w. statusLines (out w))
     (mainLoop (\<lambda>v a n. v + a) [steady []] (setup_accel (power_on [0x4D]))) \<noteq>
     Some (statusLines
       (out (mainLoop_fallback [steady []] (setup_fallback (power_on_fallback [0x4D])))))"
proof -
  let ?r = "\<lambda>(v::real) (a::real) (n::int). v + a"
  let ?w = "setup_accel (power_on [0x4D])"
  let ?v = "setup_fallback (power_on_fallback [0x4D])"
  have q: "rx ?w = char_M # []" by (simp add: fresh_accel_simps char_M_hex)
  have qv: "rx ?v = char_M # []" by (simp add: fresh_fallback_simps char_M_hex)
  obtain w1 where l: "loop ?r (steady []) ?w = Some w1"
    by (rule loop_returns_on_steady_clock [of ?w "[]" ?r "[]"])
      (simp_all add: fresh_accel_simps char_M_hex)
  from loop_M_result(1) [OF q l]
  have a: "statusLines (out w1) =
     [''Setup complete. AccelStepper configured.'',
      ''M received, starting sequence...'', ''Moving to target...'', ''Waiting...'',
      ''Returning to base...'', ''Sequence complete.'']"
    by (simp add: fresh_accel_simps statusLines_append statusLines_pulses)
  from loop_fallback_M_result(1) [OF qv, of "steady []"]
  have b: "statusLines (out (loop_fallback (steady []) ?v)) =
     [''Fallback Stepper sketch started. Send 'M' over serial to run sequence.'',
      ''M received, starting sequence...'', ''Moving to target...'', ''Waiting...'',
      ''Returning to base...'', ''Sequence complete.'']"
    by (simp add: fresh_fallback_simps statusLines_append statusLines_pulses)
  from l a b show ?thesis by simp
qed

text \<open>
  C10, amended. Apart from the start-up line that each \<open>setup()\<close> prints, the AccelStepper
  sketch and the fallback sketch cannot be told apart by the serial line and the motor:
  started with the same receive queue and given the same arrivals, any number of calls of
  \<open>loop\<close> makes both print the same lines, send the same pulses and pause for the same
  time, in the same order, and leaves the same bytes unread (in the runs in which the
  clock lets the AccelStepper moves finish; the fallback's \<open>step\<close> always does). From
  power-on the two outputs are the two start-up lines followed by the same trace. Both
  dispatch on the byte \<open>0x4D\<close> only, and a dispatched sequence is, in both, 1536 pulses
  forward, the pause of 3000 ms, and 1536 pulses back: net motion zero, tracked position
  0. How the pulses are spaced in time is not part of the trace.
\<close>

theorem sketches_equivalent:
  "(rx v = rx w \<and> currentPos w = 0 \<and> mainLoop rmp es w = Some w' \<longrightarrow>
      (\<exists>t. out w' = out w @ t \<and> out (mainLoop_fallback es v) = out v @ t) \<and>
      rx (mainLoop_fallback es v) = rx w') \<and>
   (rx v = b # bs \<longrightarrow>
      loop_fallback e v =
        (if b = 0x4D then
           Serial_println ''Sequence complete.''
             (moveMotorSequence_fallback e
               (Serial_println ''M received, starting sequence...'' (v\<lparr>rx := bs\<rparr>)))
         else v\<lparr>rx := bs\<rparr>)) \<and>
   (rx v = 0x4D # bs \<longrightarrow>
      out (loop_fallback e v) = out v @
        [Println ''M received, starting sequence...''] @
        [Println ''Moving to target...''] @ replicate 1536 (Pulse 1) @
        [Println ''Waiting...'', Delay 3000] @
        [Println ''Returning to base...''] @ replicate 1536 (Pulse (- 1)) @
        [Println ''Sequence complete.''] \<and>
      netSteps (out (loop_fallback e v)) = netSteps (out v)) \<and>
   (rx w = 0x4D # bs \<and> currentPos w = 0 \<and> loop rmp e w = Some w'' \<longrightarrow>
      out w'' = out w @
        [Println ''M received, starting sequence...''] @
        [Println ''Moving to target...''] @ replicate 1536 (Pulse 1) @
        [Println ''Waiting...'', Delay 3000] @
        [Println ''Returning to base...''] @ replicate 1536 (Pulse (- 1)) @
        [Println ''Sequence complete.''] \<and>
      netSteps (out w'') = netSteps (out w) \<and> currentPos w'' = 0) \<and>
   (mainLoop rmp es (setup_accel (power_on queue)) = Some w3 \<longrightarrow>
      (\<exists>t. out w3 = Println ''Setup complete. AccelStepper configured.'' # t \<and>
           out (mainLoop_fallback es (setup_fallback (power_on_fallback queue))) =
             Println ''Fallback Stepper sketch started. Send 'M' over serial to run sequence.'' # t) \<and>
      rx (mainLoop_fallback es (setup_fallback (power_on_fallback queue))) = rx w3)"
proof (intro conjI impI)
  assume a: "rx v = rx w \<and> currentPos w = 0 \<and> mainLoop rmp es w = Some w'"
  then have "rx v = rx w" and "currentPos w = 0" and "mainLoop rmp es w = Some w'"
    by simp_all
  then have *: "\<exists>t. out w' = out w @ t \<and> out (mainLoop_fallback es v) = out v @ t \<and>
         rx (mainLoop_fallback es v) = rx w' \<and> currentPos w' = 0"
    by (rule mainLoop_equivalent)
  from * show "\<exists>t. out w' = out w @ t \<and> out (mainLoop_fallback es v) = out v @ t" by blast
  from * show "rx (mainLoop_fallback es v) = rx w'" by blast
next
  assume "rx v = b # bs"
  then show "loop_fallback e v =
        (if b = 0x4D then
           Serial_println ''Sequence complete.''
             (moveMotorSequence_fallback e
               (Serial_println ''M received, starting sequence...'' (v\<lparr>rx := bs\<rparr>)))
         else v\<lparr>rx := bs\<rparr>)"
    using loop_fallback_M [of v bs e] loop_fallback_other [of v b bs e]
    by (simp add: char_M_hex)
next
  assume "rx v = 0x4D # bs"
  then have q: "rx v = char_M # bs" by (simp add: char_M_hex)
  from loop_fallback_M_result(1) [OF q, of e]
  show o: "out (loop_fallback e v) = out v @
        [Println ''M received, starting sequence...''] @
        [Println ''Moving to target...''] @ replicate 1536 (Pulse 1) @
        [Println ''Waiting...'', Delay 3000] @
        [Println ''Returning to base...''] @ replicate 1536 (Pulse (- 1)) @
        [Println ''Sequence complete.'']"
    by (simp add: pulses_def)
  show "netSteps (out (loop_fallback e v)) = netSteps (out v)"
    unfolding o by (simp add: netSteps_append netSteps_replicate)
next
  assume a: "rx w = 0x4D # bs \<and> currentPos w = 0 \<and> loop rmp e w = Some w''"
  then have q: "rx w = char_M # bs" and p: "currentPos w = 0" and l: "loop rmp e w = Some w''"
    by (simp_all add: char_M_hex)
  from loop_M_result(1) [OF q l] p
  show o: "out w'' = out w @
        [Println ''M received, starting sequence...''] @
        [Println ''Moving to target...''] @ replicate 1536 (Pulse 1) @
        [Println ''Waiting...'', Delay 3000] @
        [Println ''Returning to base...''] @ replicate 1536 (Pulse (- 1)) @
        [Println ''Sequence complete.'']"
    by (simp add: pulses_def stepsPerRevolution_def)
  show "netSteps (out w'') = netSteps (out w)"
    unfolding o by (simp add: netSteps_append netSteps_replicate)
  from loop_M_result(3) [OF q l] show "currentPos w'' = 0" .
next
  let ?w = "setup_accel (power_on queue)"
  let ?v = "setup_fallback (power_on_fallback queue)"
  assume m: "mainLoop rmp es ?w = Some w3"
  have "rx ?v = rx ?w" and "currentPos ?w = 0"
    by (simp_all add: fresh_accel_simps fresh_fallback_simps)
  from mainLoop_equivalent [OF this m] obtain t where
    t: "out w3 = out ?w @ t" "out (mainLoop_fallback es ?v) = out ?v @ t"
    and q: "rx (mainLoop_fallback es ?v) = rx w3"
    by blast
  from t have "out w3 = Println ''Setup complete. AccelStepper configured.'' # t \<and>
      out (mainLoop_fallback es ?v) =
        Println ''Fallback Stepper sketch started. Send 'M' over serial to run sequence.'' # t"
    by (simp add: fresh_accel_simps fresh_fallback_simps)
  then show "\<exists>t. out w3 = Println ''Setup complete. AccelStepper configured.'' # t \<and>
           out (mainLoop_fallback es ?v) =
             Println ''Fallback Stepper sketch started. Send 'M' over serial to run sequence.'' # t"
    by blast
  from q show "rx (mainLoop_fallback es ?v) = rx w3" .
qed

text \<open>The stream \<open>A M\<close> on both boards, each after its own \<open>setup()\<close> and from power-on; the
  byte \<open>A\<close> and the byte \<open>M\<close> alone on the fallback board; the byte \<open>M\<close> alone on the
  AccelStepper board.\<close>

theorem sketches_equivalent_witness:
  "(\<exists>w' t.
     mainLoop (\<lambda>v a n. v + a) (replicate 2 (steady []))
       (setup_accel (power_on [0x41, 0x4D])) = Some w' \<and>
     out w' = out (setup_accel (power_on [0x41, 0x4D])) @ t \<and>
     out (mainLoop_fallback (replicate 2 (steady []))
       (setup_fallback (power_on_fallback [0x41, 0x4D]))) =
       out (setup_fallback (power_on_fallback [0x41, 0x4D])) @ t) \<and>
   loop_fallback (steady [])
     (setup_fallback (power_on_fallback [0x41])) = (setup_fallback (power_on_fallback [0x41]))\<lparr>rx := []\<rparr> \<and>
   netSteps (out (loop_fallback (steady [])
     (setup_fallback (power_on_fallback [0x4D])))) = 0 \<and>
   (\<exists>w''. loop (\<lambda>v a n. v + a) (steady [])
       (setup_accel (power_on [0x4D])) = Some w'' \<and>
     netSteps (out w'') = 0 \<and> currentPos w'' = 0) \<and>
   (\<exists>w3 t.
     mainLoop (\<lambda>v a n. v + a) (replicate 2 (steady []))
       (setup_accel (power_on [0x41, 0x4D])) = Some w3 \<and>
     out w3 = Println ''Setup complete. AccelStepper configured.'' # t \<and>
     out (mainLoop_fallback (replicate 2 (steady []))
       (setup_fallback (power_on_fallback [0x41, 0x4D]))) =
       Println ''Fallback Stepper sketch started. Send 'M' over serial to run sequence.'' # t)"
proof -
  let ?r = "\<lambda>(v::real) (a::real) (n::int). v + a"
  let ?e = "steady []"
  let ?w = "setup_accel (power_on [0x41, 0x4D])"
  let ?v = "setup_fallback (power_on_fallback [0x41, 0x4D])"
  let ?f = "setup_fallback (power_on_fallback [0x41])"
  let ?g = "setup_fallback (power_on_fallback [0x4D])"
  let ?a = "setup_accel (power_on [0x4D])"
  have 1: "loop ?r ?e ?w = Some (?w\<lparr>rx := [char_M]\<rparr>)"
  proof (rule loop_other)
    show "rx ?w = 0x41 # [char_M]" by (simp add: fresh_accel_simps char_M_hex)
    show "(0x41 :: byte) \<noteq> char_M" by (simp add: char_M_hex)
  qed
  obtain w' where 2: "loop ?r ?e (?w\<lparr>rx := [char_M]\<rparr>) = Some w'"
    by (rule loop_returns_on_steady_clock [of "?w\<lparr>rx := [char_M]\<rparr>" "[]" ?r "[]"])
      (simp_all add: fresh_accel_simps)
  from 1 2 have m: "mainLoop ?r (replicate 2 ?e) ?w = Some w'"
    by (simp add: numeral_2_eq_2)
  then have "rx ?v = rx ?w \<and> currentPos ?w = 0 \<and> mainLoop ?r (replicate 2 ?e) ?w = Some w'"
    by (simp add: fresh_accel_simps fresh_fallback_simps)
  from sketches_equivalent [of ?v ?w ?r "replicate 2 ?e" w', THEN conjunct1, rule_format, OF this]
  obtain t where "out w' = out ?w @ t" and "out (mainLoop_fallback (replicate 2 ?e) ?v) = out ?v @ t"
    by blast
  with m have A: "\<exists>w' t. mainLoop ?r (replicate 2 ?e) ?w = Some w' \<and> out w' = out ?w @ t \<and>
      out (mainLoop_fallback (replicate 2 ?e) ?v) = out ?v @ t"
    by blast
  have "rx ?f = 0x41 # []" by (simp add: fresh_fallback_simps)
  from sketches_equivalent [of ?f _ _ _ _ "0x41" "[]" ?e, THEN conjunct2, THEN conjunct1,
      rule_format, OF this]
  have B: "loop_fallback ?e ?f = ?f\<lparr>rx := []\<rparr>" by simp
  have "rx ?g = 0x4D # []" by (simp add: fresh_fallback_simps)
  from sketches_equivalent [of ?g _ _ _ _ _ "[]" ?e, THEN conjunct2, THEN conjunct2, THEN conjunct1,
      rule_format, OF this, THEN conjunct2]
  have C: "netSteps (out (loop_fallback ?e ?g)) = 0" by (simp add: fresh_fallback_simps)
  obtain w'' where 3: "loop ?r ?e ?a = Some w''"
    by (rule loop_returns_on_steady_clock [of ?a "[]" ?r "[]"])
      (simp_all add: fresh_accel_simps char_M_hex)
  then have "rx ?a = 0x4D # [] \<and> currentPos ?a = 0 \<and> loop ?r ?e ?a = Some w''"
    by (simp add: fresh_accel_simps)
  from sketches_equivalent [of _ ?a ?r _ _ _ "[]" ?e w'', THEN conjunct2, THEN conjunct2,
      THEN conjunct2, THEN conjunct1, rule_format, OF this, THEN conjunct2]
  have D: "netSteps (out w'') = 0 \<and> currentPos w'' = 0" by (simp add: fresh_accel_simps)
  from sketches_equivalent [of _ _ ?r "replicate 2 ?e" _ _ _ _ _ "[0x41, 0x4D]" w',
      THEN conjunct2, THEN conjunct2, THEN conjunct2, THEN conjunct2, rule_format, OF m,
      THEN conjunct1]
  obtain t where "out w' = Println ''Setup complete. AccelStepper configured.'' # t"
    and "out (mainLoop_fallback (replicate 2 ?e) ?v) =
       Println ''Fallback Stepper sketch started. Send 'M' over serial to run sequence.'' # t"
    by blast
  with m have E: "\<exists>w3 t. mainLoop ?r (replicate 2 ?e) ?w = Some w3 \<and>
      out w3 = Println ''Setup complete. AccelStepper configured.'' # t \<and>
      out (mainLoop_fallback (replicate 2 ?e) ?v) =
        Println ''Fallback Stepper sketch started. Send 'M' over serial to run sequence.'' # t"
    by blast
  from A B C 3 D E show ?thesis by blast
qed

end
